theory Spec2Isabelle
  imports Main "HOL-Library.Word"
begin

unbundle bit_operations_syntax

section \<open>Common layer vocabulary\<close>

text \<open>
  The decom stack is a chain of layers; every layer offers \<open>open\<close>, \<open>close\<close>,
  \<open>send\<close>, \<open>receive\<close> and \<open>indication\<close>. A layer is embedded as a record of
  its member variables; a member function takes the record and returns the updated record
  together with the list of calls it made to its neighbours, in program order. The value
  a neighbour returns (the \<open>bool\<close> of the lower layer's \<open>open\<close> or \<open>send\<close>) is an
  argument of the embedded function.
\<close>

type_synonym byte = "8 word"

text \<open>
  Modelled from the spec: the \<open>msg\<close> container used by the protocols (msg.h is not among
  the sources). Inside the protocol layers a message is its logical byte sequence;
  \<open>push_back\<close>, \<open>push_front\<close>, \<open>insert\<close>, \<open>resize\<close> and \<open>clear\<close> are the list
  operations on it, on a writable message with pages available. The paged, reference
  counted representation is modelled separately in the section on the message pool.
\<close>

type_synonym msg = "byte list"

text \<open>
  Modelled from the spec: the endpoint identifier (eid.h is not among the sources); the
  sentinel \<open>eid_any\<close> is the default argument of every interface function.
\<close>

datatype eid = eid_any | eid_of nat

datatype status_type =
  connected | disconnected | tx_done | tx_error | tx_timeout | rx_error | rx_overrun | rx_timeout

text \<open>
  Modelled from the spec: the base class \<open>protocol\<close> (prot.h is not among the sources)
  forwards \<open>open\<close>, \<open>close\<close> and \<open>send\<close> to the lower layer and \<open>receive\<close> and
  \<open>indication\<close> to the upper layer, unchanged. Each such call is one event; the
  \<open>bool\<close> of \<open>Lower_send\<close> and \<open>Upper_receive\<close> is the \<open>more\<close> argument,
  which the protocols below leave at its default \<open>false\<close>.
\<close>

datatype event =
  Lower_open string eid
  | Lower_close eid
  | Lower_send msg eid bool
  | Upper_receive msg eid bool
  | Upper_indication status_type eid

text \<open>
  The base class \<open>layer\<close>, as far as the protocols read it: whether the upper
  back-reference \<open>upper_\<close> is wired (not null).
\<close>

record layer =
  upper :: bool

section \<open>SLIP protocol (class \<open>decom::prot::slip\<close>)\<close>

definition END :: byte where "END = 0xC0"
definition ESC :: byte where "ESC = 0xDB"
definition ESC_END :: byte where "ESC_END = 0xDC"
definition ESC_ESC :: byte where "ESC_ESC = 0xDD"

datatype rx_state_type = RCV_IDLE | RCV_DATA | RCV_ESC

record slip = layer +
  rx_state :: rx_state_type
  is_open :: bool
  rx_msg :: msg
  tx_msg :: msg

text \<open>The constructor: receive state idle, layer closed, both buffers empty.\<close>

definition slip_ctor :: "bool \<Rightarrow> slip" where
  "slip_ctor up = \<lparr>upper = up, rx_state = RCV_IDLE, is_open = False, rx_msg = [], tx_msg = []\<rparr>"

text \<open>\<open>slip::open\<close>; \<open>lower_res\<close> is what the lower layer's \<open>open\<close> returns.\<close>

definition slip_open :: "slip \<Rightarrow> string \<Rightarrow> eid \<Rightarrow> bool \<Rightarrow> bool \<times> slip \<times> event list" where
  "slip_open s address ident lower_res =
     (if \<not> upper s then (False, s, [])
      else (lower_res, s\<lparr>is_open := lower_res, rx_state := RCV_IDLE\<rparr>, [Lower_open address ident]))"

definition slip_close :: "slip \<Rightarrow> eid \<Rightarrow> slip \<times> event list" where
  "slip_close s ident =
     (s\<lparr>is_open := False, rx_msg := [], tx_msg := [], rx_state := RCV_IDLE\<rparr>, [Lower_close ident])"

text \<open>The \<open>for\<close> loop of \<open>slip::send\<close>: byte stuffing of the packet onto the transmit buffer.\<close>

fun slip_stuff :: "msg \<Rightarrow> msg \<Rightarrow> msg" where
  "slip_stuff tx [] = tx"
| "slip_stuff tx (it # rest) =
     slip_stuff (if it = END then tx @ [ESC, ESC_END]
                 else if it = ESC then tx @ [ESC, ESC_ESC]
                 else tx @ [it]) rest"

text \<open>\<open>slip::send\<close>; \<open>lower_res\<close> is what the lower layer's \<open>send\<close> returns.\<close>

definition slip_send :: "slip \<Rightarrow> msg \<Rightarrow> eid \<Rightarrow> bool \<Rightarrow> bool \<Rightarrow> bool \<times> slip \<times> event list" where
  "slip_send s packet ident more_frag lower_res =
     (if \<not> is_open s then (False, s, [])
      else
        let tx0 = (if tx_msg s = [] then END # tx_msg s else tx_msg s);
            tx1 = slip_stuff tx0 packet
        in if \<not> more_frag
           then (lower_res, s\<lparr>tx_msg := []\<rparr>, [Lower_send (tx1 @ [END]) ident False])
           else (True, s\<lparr>tx_msg := tx1\<rparr>, [Upper_indication tx_done ident]))"

text \<open>One iteration of the \<open>for\<close> loop of \<open>slip::receive\<close>: the \<open>switch\<close> on the receive state.\<close>

fun slip_rx_byte :: "slip \<Rightarrow> byte \<Rightarrow> slip \<times> event list" where
  "slip_rx_byte s it =
     (case rx_state s of
        RCV_IDLE \<Rightarrow> (if it = END then (s\<lparr>rx_state := RCV_DATA\<rparr>, []) else (s, []))
      | RCV_DATA \<Rightarrow>
          (if it = ESC then (s\<lparr>rx_state := RCV_ESC\<rparr>, [])
           else if it = END then
             (if length (rx_msg s) \<noteq> 0
              then (s\<lparr>rx_msg := [], rx_state := RCV_IDLE\<rparr>, [Upper_receive (rx_msg s) eid_any False])
              else (s\<lparr>rx_state := RCV_IDLE\<rparr>, []))
           else (s\<lparr>rx_msg := rx_msg s @ [it]\<rparr>, []))
      | RCV_ESC \<Rightarrow>
          (if it = ESC_END then (s\<lparr>rx_msg := rx_msg s @ [END], rx_state := RCV_DATA\<rparr>, [])
           else if it = ESC_ESC then (s\<lparr>rx_msg := rx_msg s @ [ESC], rx_state := RCV_DATA\<rparr>, [])
           else (s\<lparr>rx_msg := [], rx_state := RCV_IDLE\<rparr>, [])))"

fun slip_rx_loop :: "slip \<Rightarrow> msg \<Rightarrow> slip \<times> event list" where
  "slip_rx_loop s [] = (s, [])"
| "slip_rx_loop s (it # rest) =
     (let (s1, ev1) = slip_rx_byte s it;
          (s2, ev2) = slip_rx_loop s1 rest
      in (s2, ev1 @ ev2))"

definition slip_receive :: "slip \<Rightarrow> msg \<Rightarrow> eid \<Rightarrow> bool \<Rightarrow> slip \<times> event list" where
  "slip_receive s data ident more_frag =
     (if \<not> is_open s then (s, []) else slip_rx_loop s data)"

section \<open>ISO 15765-2 transport protocol (class \<open>decom::prot::iso15765\<close>)\<close>

subsection \<open>Protocol definitions\<close>

definition NPCI_SINGLE_FRAME :: byte where "NPCI_SINGLE_FRAME = 0x00"
definition NPCI_FIRST_FRAME :: byte where "NPCI_FIRST_FRAME = 0x10"
definition NPCI_CONSECUTIVE_FRAME :: byte where "NPCI_CONSECUTIVE_FRAME = 0x20"
definition NPCI_FLOW_CONTROL :: byte where "NPCI_FLOW_CONTROL = 0x30"

definition SF_DATALENGTH :: nat where "SF_DATALENGTH = 7"
definition FF_DATALENGTH :: nat where "FF_DATALENGTH = 6"
definition CF_DATALENGTH :: nat where "CF_DATALENGTH = 7"
definition FC_DATALENGTH :: nat where "FC_DATALENGTH = 3"
definition SF_DATALENGTH_EXT :: nat where "SF_DATALENGTH_EXT = 6"
definition FF_DATALENGTH_EXT :: nat where "FF_DATALENGTH_EXT = 5"
definition CF_DATALENGTH_EXT :: nat where "CF_DATALENGTH_EXT = 6"
definition FRAME_LENGTH :: nat where "FRAME_LENGTH = 8"

definition FC_CTS :: byte where "FC_CTS = 0"
definition FC_WAIT :: byte where "FC_WAIT = 1"
definition FC_OVERFLOW :: byte where "FC_OVERFLOW = 2"

definition N_As :: nat where "N_As = 1000"
definition N_Bs :: nat where "N_Bs = 1000"
definition N_Cr :: nat where "N_Cr = 1000"

definition CF_MAX_FRAME_SIZE :: nat where "CF_MAX_FRAME_SIZE = 4095"
definition CF_MAX_BUFFER_SIZE :: nat where "CF_MAX_BUFFER_SIZE = CF_MAX_FRAME_SIZE"

subsection \<open>Message operations used by the protocol\<close>

text \<open>
  Modelled from the spec: \<open>msg::operator[]\<close> (msg.h is not among the sources). The
  element access test reads the byte \<open>0xCC\<close> at an index past the end.
\<close>

definition msg_index :: "msg \<Rightarrow> nat \<Rightarrow> byte" where
  "msg_index m i = (if i < length m then m ! i else 0xCC)"

text \<open>
  Modelled from the spec: \<open>msg::pop_front\<close>, undefined on an empty message; the model
  leaves an empty message empty.
\<close>

definition pop_front :: "msg \<Rightarrow> msg" where
  "pop_front m = (case m of [] \<Rightarrow> [] | _ # rest \<Rightarrow> rest)"

text \<open>Modelled from the spec: \<open>msg::resize\<close> truncates or pads with \<open>0\<close>.\<close>

definition resize :: "msg \<Rightarrow> nat \<Rightarrow> msg" where
  "resize m n = take n m @ replicate (n - length m) 0"

text \<open>
  The zero padding statement
  \<open>m.insert(m.end(), m.size() < FRAME_LENGTH ? FRAME_LENGTH - m.size() : 0, 0)\<close>.
\<close>

definition zero_padding :: "msg \<Rightarrow> msg" where
  "zero_padding m =
     m @ replicate (if length m < FRAME_LENGTH then FRAME_LENGTH - length m else 0) 0"

text \<open>
  Modelled from the spec: \<open>decom::util::make_large\<close> (util.h is not among the sources)
  joins a low and a high byte into a 16 bit value, big-endian on the wire.
\<close>

definition make_large :: "byte \<Rightarrow> byte \<Rightarrow> 16 word" where
  "make_large lo hi = push_bit 8 (ucast hi) OR ucast lo"

subsection \<open>State\<close>

text \<open>
  Modelled from the spec: \<open>util::timer\<close> and \<open>util::event\<close> (util/timer.h is not among
  the sources). A one-shot timer is \<open>None\<close> when stopped and \<open>Some d\<close> when started
  with a duration of \<open>d\<close> milliseconds; each timer of the class has one fixed callback.
  The event is a binary latch: \<open>True\<close> when set.
\<close>

type_synonym timer = "nat option"

record iso15765 = layer +
  CF_frame :: msg
  CF_eid :: eid
  CF_SN :: byte
  CF_DL :: "16 word"
  CF_size :: "16 word"
  CF_MAX_DL :: "16 word"
  CF_STmin :: byte
  CF_BS :: byte
  CF_BScnt :: byte
  FC_STmin :: byte
  FC_BS :: byte
  FC_FS :: byte
  use_ext_adr :: bool
  ext_source_adr :: byte
  ext_target_adr :: byte
  use_zero_padding :: bool
  timer_TX_CF :: timer
  timer_TX_FC :: timer
  timer_RX_CF :: timer
  tx_ev :: bool

definition iso15765_ctor :: "bool \<Rightarrow> byte \<Rightarrow> byte \<Rightarrow> 16 word \<Rightarrow> iso15765" where
  "iso15765_ctor up STmin BS MAX_DL =
     \<lparr>upper = up, CF_frame = [], CF_eid = eid_any, CF_SN = 0, CF_DL = 0, CF_size = 0,
      CF_MAX_DL = MAX_DL, CF_STmin = STmin, CF_BS = BS, CF_BScnt = 0,
      FC_STmin = 0, FC_BS = 0, FC_FS = 0,
      use_ext_adr = False, ext_source_adr = 0, ext_target_adr = 0, use_zero_padding = False,
      timer_TX_CF = None, timer_TX_FC = None, timer_RX_CF = None, tx_ev = False\<rparr>"

definition extended_addressing :: "iso15765 \<Rightarrow> bool \<Rightarrow> byte \<Rightarrow> byte \<Rightarrow> iso15765" where
  "extended_addressing s use_extended source_adr target_adr =
     s\<lparr>use_ext_adr := use_extended, ext_source_adr := source_adr, ext_target_adr := target_adr\<rparr>"

subsection \<open>open, close, indication\<close>

definition iso15765_open :: "iso15765 \<Rightarrow> string \<Rightarrow> eid \<Rightarrow> bool \<Rightarrow> bool \<times> iso15765 \<times> event list" where
  "iso15765_open s address ident lower_res =
     (if \<not> upper s then (False, s, [])
      else (lower_res, s\<lparr>CF_DL := 0\<rparr>, [Lower_open address ident]))"

definition iso15765_close :: "iso15765 \<Rightarrow> eid \<Rightarrow> iso15765 \<times> event list" where
  "iso15765_close s ident =
     (s\<lparr>timer_TX_CF := None, timer_TX_FC := None, timer_RX_CF := None\<rparr>, [Lower_close ident])"

definition iso15765_indication :: "iso15765 \<Rightarrow> status_type \<Rightarrow> eid \<Rightarrow> iso15765 \<times> event list" where
  "iso15765_indication s code ident =
     ((if code = tx_done then s\<lparr>tx_ev := True\<rparr> else s), [Upper_indication code ident])"

subsection \<open>send\<close>

text \<open>\<open>iso15765::send\<close>; \<open>lower_res\<close> is what the lower layer's \<open>send\<close> returns.\<close>

definition iso15765_send ::
  "iso15765 \<Rightarrow> msg \<Rightarrow> eid \<Rightarrow> bool \<Rightarrow> bool \<Rightarrow> bool \<times> iso15765 \<times> event list" where
  "iso15765_send s data ident more_frag lower_res =
     (if length data > CF_MAX_FRAME_SIZE then (False, s, [])
      else if CF_DL s \<noteq> 0 then (False, s, [])
      else if length data \<le> (if use_ext_adr s then SF_DATALENGTH_EXT else SF_DATALENGTH) then
        let d1 = (NPCI_SINGLE_FRAME OR (of_nat (length data) AND 0x0F)) # data;
            d2 = (if use_ext_adr s then ext_target_adr s # d1 else d1);
            d3 = (if use_zero_padding s then zero_padding d2 else d2)
        in (lower_res, s, [Lower_send d3 ident False])
      else
        let s1 = s\<lparr>CF_frame := data,
                   CF_SN := 1,
                   CF_DL := (if use_ext_adr s then of_nat FF_DATALENGTH_EXT else of_nat FF_DATALENGTH),
                   CF_size := of_nat (length data),
                   CF_BScnt := 0,
                   CF_eid := ident\<rparr>;
            ff0 = [NPCI_FIRST_FRAME OR (ucast (drop_bit 8 (CF_size s1)) AND 0x0F),
                   ucast (CF_size s1)] @ take (unat (CF_DL s1)) data;
            ff = (if use_ext_adr s then ext_target_adr s # ff0 else ff0)
        in if lower_res
           then (True, s1\<lparr>timer_TX_FC := Some N_Bs\<rparr>, [Lower_send ff ident False])
           else (False, s1\<lparr>CF_DL := 0, CF_frame := []\<rparr>, [Lower_send ff ident False]))"

subsection \<open>Private senders\<close>

text \<open>
  \<open>iso15765::send_CF\<close>. The bounded wait on \<open>tx_ev_\<close> succeeds when the latch is set;
  a \<open>tx_done\<close> indication that arrives during the wait is an \<open>iso15765_indication\<close>
  step before this one.
\<close>

definition send_CF :: "iso15765 \<Rightarrow> bool \<Rightarrow> bool \<times> iso15765 \<times> event list" where
  "send_CF s lower_res =
     (let cfl = (if use_ext_adr s then CF_DATALENGTH_EXT else CF_DATALENGTH);
          first = unat (CF_DL s);
          last = (if first + cfl < length (CF_frame s) then first + cfl else length (CF_frame s));
          cf0 = (NPCI_CONSECUTIVE_FRAME OR (CF_SN s AND 0x0F)) # take (last - first) (drop first (CF_frame s));
          cf1 = (if use_ext_adr s then ext_target_adr s # cf0 else cf0);
          cf = (if use_zero_padding s then zero_padding cf1 else cf1)
      in if \<not> tx_ev s
         then (False, s\<lparr>CF_DL := 0, CF_frame := []\<rparr>, [Upper_indication tx_timeout eid_any])
         else
           let s1 = s\<lparr>tx_ev := False\<rparr> in
           if lower_res then
             let s2 = s1\<lparr>CF_SN := CF_SN s1 + 1, CF_DL := CF_DL s1 + of_nat cfl\<rparr> in
             if unat (CF_DL s2) \<ge> unat (CF_size s2)
             then (True, s2\<lparr>CF_DL := 0, CF_frame := []\<rparr>, [Lower_send cf (CF_eid s) False])
             else if FC_BS s2 \<noteq> 0
             then (if CF_BScnt s2 \<ge> FC_BS s2
                   then (True, s2\<lparr>CF_BScnt := CF_BScnt s2 + 1, timer_TX_FC := Some N_Bs\<rparr>,
                         [Lower_send cf (CF_eid s) False])
                   else (True, s2\<lparr>CF_BScnt := CF_BScnt s2 + 1, timer_TX_CF := Some (unat (FC_STmin s2))\<rparr>,
                         [Lower_send cf (CF_eid s) False]))
             else (True, s2\<lparr>timer_TX_CF := Some (unat (FC_STmin s2))\<rparr>, [Lower_send cf (CF_eid s) False])
           else (False, s1\<lparr>timer_TX_CF := Some (unat (FC_STmin s1))\<rparr>, [Lower_send cf (CF_eid s) False]))"

definition send_CF_abort :: "iso15765 \<Rightarrow> iso15765 \<times> event list" where
  "send_CF_abort s = (s\<lparr>CF_DL := 0, CF_frame := []\<rparr>, [Upper_indication rx_timeout eid_any])"

text \<open>\<open>iso15765::send_FC\<close>: the frame handed to the lower layer (its result is not used).\<close>

definition send_FC :: "iso15765 \<Rightarrow> byte \<Rightarrow> eid \<Rightarrow> event list" where
  "send_FC s FS ident =
     (let fc0 = [NPCI_FLOW_CONTROL OR (FS AND 0x0F), CF_BS s, CF_STmin s];
          fc1 = (if use_ext_adr s then ext_target_adr s # fc0 else fc0);
          fc = (if use_zero_padding s then zero_padding fc1 else fc1)
      in [Lower_send fc ident False])"

subsection \<open>Timer callbacks\<close>

text \<open>
  A callback runs when its one-shot timer expires, so the timer is no longer running
  when the callback starts.
\<close>

definition timer_func_TX_CF :: "iso15765 \<Rightarrow> bool \<Rightarrow> bool \<times> iso15765 \<times> event list" where
  "timer_func_TX_CF s lower_res = send_CF (s\<lparr>timer_TX_CF := None\<rparr>) lower_res"

definition timer_func_TX_FC :: "iso15765 \<Rightarrow> iso15765 \<times> event list" where
  "timer_func_TX_FC s = send_CF_abort (s\<lparr>timer_TX_FC := None\<rparr>)"

definition timer_func_RX_CF :: "iso15765 \<Rightarrow> iso15765 \<times> event list" where
  "timer_func_RX_CF s = send_CF_abort (s\<lparr>timer_RX_CF := None\<rparr>)"

subsection \<open>receive\<close>

text \<open>The \<open>NPCI_SINGLE_FRAME\<close> case of the \<open>switch\<close> in \<open>iso15765::receive\<close>.\<close>

definition receive_SF :: "iso15765 \<Rightarrow> msg \<Rightarrow> eid \<Rightarrow> iso15765 \<times> event list" where
  "receive_SF s data ident =
     (let s1 = s\<lparr>CF_DL := 0\<rparr>;
          SF_DL = msg_index data 0 AND 0x0F
      in if unat SF_DL > (if use_ext_adr s then SF_DATALENGTH_EXT else SF_DATALENGTH)
            \<or> length data \<le> unat SF_DL
         then (s1, [Upper_indication rx_error ident])
         else (s1, [Upper_receive (resize (pop_front data) (unat SF_DL)) ident False]))"

text \<open>
  The \<open>NPCI_FIRST_FRAME\<close> case; \<open>FC_SEND_OVERFLOW\<close> is not defined, so no overflow
  frame is sent for an oversized message.
\<close>

definition receive_FF :: "iso15765 \<Rightarrow> msg \<Rightarrow> eid \<Rightarrow> iso15765 \<times> event list" where
  "receive_FF s data ident =
     (let ffl = (if use_ext_adr s then FF_DATALENGTH_EXT else FF_DATALENGTH);
          s1 = s\<lparr>CF_DL := make_large (msg_index data 1) (msg_index data 0 AND 0x0F)\<rparr>
      in if unat (CF_DL s1) < ffl + 2
         then (s1\<lparr>CF_DL := 0, CF_frame := []\<rparr>, [Upper_indication rx_error ident])
         else if unat (CF_DL s1) > unat (CF_MAX_DL s1) \<or> unat (CF_DL s1) > CF_MAX_BUFFER_SIZE
         then (s1\<lparr>CF_DL := 0, CF_frame := []\<rparr>, [Upper_indication rx_error ident])
         else
           let data2 = resize (pop_front (pop_front data)) ffl;
               s2 = s1\<lparr>CF_frame := data2, CF_SN := 1, CF_BScnt := 0\<rparr>
           in (s2\<lparr>timer_RX_CF := Some N_Cr\<rparr>, send_FC s2 FC_CTS ident))"

text \<open>The \<open>NPCI_CONSECUTIVE_FRAME\<close> case.\<close>

definition receive_CF :: "iso15765 \<Rightarrow> msg \<Rightarrow> eid \<Rightarrow> iso15765 \<times> event list" where
  "receive_CF s data ident =
     (let s1 = s\<lparr>timer_RX_CF := None\<rparr> in
      if CF_DL s1 = 0 then (s1, [Upper_indication rx_error ident])
      else
        let SN = msg_index data 0 AND 0x0F in
        if SN \<noteq> CF_SN s1
        then (s1\<lparr>CF_DL := 0, CF_frame := []\<rparr>, [Upper_indication rx_error ident])
        else
          let s2 = s1\<lparr>CF_SN := (CF_SN s1 + 1) AND 0x0F\<rparr>;
              data1 = pop_front data;
              fits = (length (CF_frame s2) + length data1 \<le> CF_MAX_BUFFER_SIZE);
              s3 = (if fits then s2\<lparr>CF_frame := CF_frame s2 @ data1\<rparr> else s2);
              ev1 = (if fits then [] else [Upper_indication rx_overrun ident])
          in if length (CF_frame s3) \<ge> unat (CF_DL s3)
             then (s3\<lparr>CF_DL := 0, CF_frame := []\<rparr>,
                   ev1 @ [Upper_receive (resize (CF_frame s3) (unat (CF_DL s3))) ident False])
             else if CF_BS s3 \<noteq> 0
             then (if CF_BScnt s3 + 1 \<ge> CF_BS s3
                   then (s3\<lparr>CF_BScnt := 0, timer_RX_CF := Some N_Cr\<rparr>,
                         ev1 @ send_FC (s3\<lparr>CF_BScnt := 0\<rparr>) FC_CTS ident)
                   else (s3\<lparr>CF_BScnt := CF_BScnt s3 + 1, timer_RX_CF := Some N_Cr\<rparr>, ev1))
             else (s3\<lparr>timer_RX_CF := Some N_Cr\<rparr>, ev1))"

text \<open>The \<open>NPCI_FLOW_CONTROL\<close> case.\<close>

definition receive_FC :: "iso15765 \<Rightarrow> msg \<Rightarrow> eid \<Rightarrow> iso15765 \<times> event list" where
  "receive_FC s data ident =
     (let s1 = s\<lparr>timer_TX_FC := None\<rparr> in
      if length data < FC_DATALENGTH then (s1, [Upper_indication rx_error ident])
      else if unat (msg_index data 0 AND 0x0F) > 1 then (s1, [Upper_indication rx_error ident])
      else
        let s2 = s1\<lparr>FC_FS := msg_index data 0 AND 0x01,
                    FC_BS := msg_index data 1,
                    FC_STmin := msg_index data 2,
                    CF_BScnt := 0\<rparr>
        in if FC_FS s2 = 0
           then (s2\<lparr>timer_TX_CF := Some (unat (FC_STmin s2))\<rparr>, [])
           else (s2, []))"

text \<open>\<open>iso15765::receive\<close>: the address check, then the \<open>switch\<close> on the N_PCI type.\<close>

definition iso15765_receive :: "iso15765 \<Rightarrow> msg \<Rightarrow> eid \<Rightarrow> bool \<Rightarrow> iso15765 \<times> event list" where
  "iso15765_receive s data0 ident more_frag =
     (if use_ext_adr s \<and> msg_index data0 0 \<noteq> ext_source_adr s then (s, [])
      else
        let data = (if use_ext_adr s then pop_front data0 else data0);
            npci = msg_index data 0 AND 0xF0
        in if npci = NPCI_SINGLE_FRAME then receive_SF s data ident
           else if npci = NPCI_FIRST_FRAME then receive_FF s data ident
           else if npci = NPCI_CONSECUTIVE_FRAME then receive_CF s data ident
           else if npci = NPCI_FLOW_CONTROL then receive_FC s data ident
           else (s, [Upper_indication rx_error ident]))"

section \<open>Serial communicator (class \<open>decom::com::serial\<close>)\<close>

text \<open>
  The Windows handles of the class: \<open>INVALID_HANDLE_VALUE\<close>, the null handle a failed
  \<open>_beginthreadex\<close> returns, or a handle of an open object.
\<close>

datatype handle = INVALID_HANDLE_VALUE | NULL_HANDLE | VALID_HANDLE

text \<open>The calls the communicator makes to the operating system and to the upper layer.\<close>

datatype serial_event =
  CreateFileA string
  | SetCommState
  | SetCommTimeouts
  | PurgeComm
  | CloseHandle_com
  | Beginthreadex
  | SetThreadPriority
  | ResumeThread
  | Terminate_thread
  | Serial_indication status_type

text \<open>What the operating system answers during one \<open>open\<close>.\<close>

record os_results =
  create_file_ok :: bool
  set_comm_state_ok :: bool
  set_comm_timeouts_ok :: bool
  beginthreadex_ok :: bool

record serial = layer +
  com_handle :: handle
  thread_handle :: handle
  tx_busy :: bool

text \<open>The constructor leaves both handles invalid and no transfer running.\<close>

definition serial_ctor :: "bool \<Rightarrow> serial" where
  "serial_ctor up =
     \<lparr>upper = up, com_handle = INVALID_HANDLE_VALUE, thread_handle = INVALID_HANDLE_VALUE,
      tx_busy = False\<rparr>"

definition serial_is_open :: "serial \<Rightarrow> bool" where
  "serial_is_open s = (com_handle s \<noteq> INVALID_HANDLE_VALUE)"

definition serial_close :: "serial \<Rightarrow> serial \<times> serial_event list" where
  "serial_close s =
     (let ev1 = (if thread_handle s \<noteq> INVALID_HANDLE_VALUE then [Terminate_thread] else []);
          s1 = s\<lparr>thread_handle := INVALID_HANDLE_VALUE\<rparr>
      in if com_handle s1 \<noteq> INVALID_HANDLE_VALUE
         then (s1\<lparr>com_handle := INVALID_HANDLE_VALUE\<rparr>,
               ev1 @ [PurgeComm, CloseHandle_com, Serial_indication disconnected])
         else (s1, ev1))"

text \<open>
  \<open>serial::open\<close>. The port name is the address behind the device prefix: two
  backslashes, a dot, a backslash.
\<close>

definition serial_open :: "serial \<Rightarrow> string \<Rightarrow> os_results \<Rightarrow> bool \<times> serial \<times> serial_event list" where
  "serial_open s address os =
     (if \<not> upper s then (False, s, [])
      else if address = [] then (False, s, [])
      else
        let port = [CHR 0x5C, CHR 0x5C, CHR ''.'', CHR 0x5C] @ address;
            (s1, ev1) = serial_close s;
            ev2 = ev1 @ [CreateFileA port]
        in if \<not> create_file_ok os then (False, s1\<lparr>com_handle := INVALID_HANDLE_VALUE\<rparr>, ev2)
           else
             let s2 = s1\<lparr>com_handle := VALID_HANDLE\<rparr>;
                 ev3 = ev2 @ [SetCommState]
             in if \<not> set_comm_state_ok os
                then (let (s3, ev4) = serial_close s2 in (False, s3, ev3 @ ev4))
                else
                  let ev5 = ev3 @ [SetCommTimeouts] in
                  if \<not> set_comm_timeouts_ok os
                  then (let (s3, ev4) = serial_close s2 in (False, s3, ev5 @ ev4))
                  else
                    let s4 = s2\<lparr>tx_busy := False\<rparr>;
                        ev6 = ev5 @ [Beginthreadex]
                    in if \<not> beginthreadex_ok os
                       then (let (s5, ev7) = serial_close (s4\<lparr>thread_handle := NULL_HANDLE\<rparr>)
                             in (False, s5, ev6 @ ev7))
                       else (True, s4\<lparr>thread_handle := VALID_HANDLE\<rparr>,
                             ev6 @ [SetThreadPriority, ResumeThread, Serial_indication connected]))"

section \<open>Message pool and paged messages\<close>

text \<open>
  Modelled from the spec: the message pool and the paged representation of \<open>msg\<close>
  (msg.h and msg_pool.h are not among the sources; only the test of the container is).
  The pool is an array of pages of \<open>page_size\<close> bytes, each with a reference count, a
  LIFO free list and the counters of used pages. A message holds an ordered list of page
  references and the window \<open>(head, tail)\<close>: its bytes are those of its first page from
  \<open>head\<close> on, of the middle pages, and of its last page up to \<open>tail\<close>. A message is
  marked \<open>shared\<close> once a cheap copy was made against it.
\<close>

record page =
  ref_count :: nat
  page_data :: "byte list"

record msg_pool =
  page_size :: nat
  pool_pages :: "page list"
  free_list :: "nat list"
  used_pages :: nat
  used_pages_max :: nat

record paged_msg =
  pages :: "nat list"
  head :: nat
  tail :: nat
  shared :: bool

text \<open>
  Modelled from the spec: a pool of \<open>P\<close> pages of \<open>B\<close> bytes before any page is
  taken: every page is free.
\<close>

definition pool_init :: "nat \<Rightarrow> nat \<Rightarrow> msg_pool" where
  "pool_init B P =
     \<lparr>page_size = B,
      pool_pages = replicate P \<lparr>ref_count = 0, page_data = replicate B 0\<rparr>,
      free_list = [0..<P],
      used_pages = 0,
      used_pages_max = 0\<rparr>"

definition empty_msg :: paged_msg where
  "empty_msg = \<lparr>pages = [], head = 0, tail = 0, shared = False\<rparr>"

text \<open>Modelled from the spec: \<open>acquire()\<close> takes one free page with reference count 1, or fails.\<close>

definition acquire :: "msg_pool \<Rightarrow> (nat \<times> msg_pool) option" where
  "acquire pool =
     (case free_list pool of
        [] \<Rightarrow> None
      | p # rest \<Rightarrow>
          Some (p, pool\<lparr>pool_pages := (pool_pages pool)[p := (pool_pages pool ! p)\<lparr>ref_count := 1\<rparr>],
                         free_list := rest,
                         used_pages := used_pages pool + 1,
                         used_pages_max := max (used_pages_max pool) (used_pages pool + 1)\<rparr>))"

text \<open>Modelled from the spec: \<open>acquire(page_ref)\<close> increments the reference count.\<close>

definition acquire_ref :: "nat \<Rightarrow> msg_pool \<Rightarrow> msg_pool" where
  "acquire_ref p pool =
     (if p < length (pool_pages pool)
      then pool\<lparr>pool_pages :=
             (pool_pages pool)[p := (pool_pages pool ! p)\<lparr>ref_count := ref_count (pool_pages pool ! p) + 1\<rparr>]\<rparr>
      else pool)"

text \<open>
  Modelled from the spec: \<open>release(page_ref)\<close> decrements the reference count; a page
  that reaches zero returns to the free list.
\<close>

definition release :: "nat \<Rightarrow> msg_pool \<Rightarrow> msg_pool" where
  "release p pool =
     (if p < length (pool_pages pool) \<and> 0 < ref_count (pool_pages pool ! p)
      then
        let n = ref_count (pool_pages pool ! p) - 1;
            pool1 = pool\<lparr>pool_pages := (pool_pages pool)[p := (pool_pages pool ! p)\<lparr>ref_count := n\<rparr>]\<rparr>
        in if n = 0
           then pool1\<lparr>free_list := p # free_list pool1, used_pages := used_pages pool1 - 1\<rparr>
           else pool1
      else pool)"

subsection \<open>Reading\<close>

text \<open>Modelled from the spec: \<open>size() = k * B - head - (B - tail)\<close> for \<open>k \<ge> 1\<close> pages, else 0.\<close>

definition msg_size :: "msg_pool \<Rightarrow> paged_msg \<Rightarrow> nat" where
  "msg_size pool m =
     (if pages m = [] then 0
      else length (pages m) * page_size pool - head m - (page_size pool - tail m))"

text \<open>Modelled from the spec: the effective bytes of a message, page after page.\<close>

definition msg_bytes :: "msg_pool \<Rightarrow> paged_msg \<Rightarrow> byte list" where
  "msg_bytes pool m =
     take (msg_size pool m)
       (drop (head m) (concat (map (\<lambda>p. page_data (pool_pages pool ! p)) (pages m))))"

text \<open>
  Modelled from the spec: \<open>at(i)\<close> and \<open>operator[]\<close> are O(1) random access into the
  page that holds logical index \<open>i\<close>; an index past the end reads the sentinel \<open>0xCC\<close>.
\<close>

definition msg_at :: "msg_pool \<Rightarrow> paged_msg \<Rightarrow> nat \<Rightarrow> byte" where
  "msg_at pool m i =
     (if i < msg_size pool m
      then
        let off = head m + i;
            pg = pool_pages pool ! (pages m ! (off div page_size pool))
        in page_data pg ! (off mod page_size pool)
      else 0xCC)"

definition msg_subscript :: "msg_pool \<Rightarrow> paged_msg \<Rightarrow> nat \<Rightarrow> byte" where
  "msg_subscript pool m i = msg_at pool m i"

subsection \<open>The write path\<close>

text \<open>
  Modelled from the spec: a message in read-only state rejects mutations by returning
  false; every write path verifies the unshared invariant. A message is read-only while
  one of its pages is referenced more than once: so the copy test finds a message
  writable again once its cheap copy has been cleared. A message without pages has no
  reference count to consult; it is read-only while it carries the mark \<open>shared\<close> that
  a cheap copy leaves on both sides.
\<close>

definition read_only :: "msg_pool \<Rightarrow> paged_msg \<Rightarrow> bool" where
  "read_only pool m =
     (list_ex (\<lambda>p. 1 < ref_count (pool_pages pool ! p)) (pages m)
      \<or> (pages m = [] \<and> shared m))"

text \<open>
  Modelled from the spec: the frame of every mutating operation. A read-only message is
  left as it is and false is returned. Otherwise the operation runs; when it fails (the
  pool is exhausted) it is rejected as a whole and nothing is consumed, and when it
  succeeds the message is exclusively owned and loses the mark.
\<close>

definition write_path ::
  "msg_pool \<Rightarrow> paged_msg \<Rightarrow> bool \<times> msg_pool \<times> paged_msg \<Rightarrow> bool \<times> msg_pool \<times> paged_msg" where
  "write_path pool m result =
     (if read_only pool m then (False, pool, m)
      else (case result of
              (True, pool1, m1) \<Rightarrow> (True, pool1, m1\<lparr>shared := False\<rparr>)
            | (False, pool1, m1) \<Rightarrow> (False, pool, m)))"

definition write_byte :: "msg_pool \<Rightarrow> nat \<Rightarrow> nat \<Rightarrow> byte \<Rightarrow> msg_pool" where
  "write_byte pool p off v =
     pool\<lparr>pool_pages :=
       (pool_pages pool)[p := (pool_pages pool ! p)\<lparr>page_data := (page_data (pool_pages pool ! p))[off := v]\<rparr>]\<rparr>"

text \<open>
  Modelled from the spec: \<open>push_back(v)\<close> allocates a new trailing page when the last
  one is full (\<open>tail = B\<close>) and fails when the pool is exhausted.
\<close>

definition push_back_page :: "msg_pool \<Rightarrow> paged_msg \<Rightarrow> byte \<Rightarrow> bool \<times> msg_pool \<times> paged_msg" where
  "push_back_page pool m v =
     (if pages m = [] \<or> tail m = page_size pool then
        (case acquire pool of
           None \<Rightarrow> (False, pool, m)
         | Some (p, pool1) \<Rightarrow>
             (True, write_byte pool1 p 0 v,
              m\<lparr>pages := pages m @ [p], head := (if pages m = [] then 0 else head m), tail := 1\<rparr>))
      else (True, write_byte pool (last (pages m)) (tail m) v, m\<lparr>tail := tail m + 1\<rparr>))"

definition push_back :: "msg_pool \<Rightarrow> paged_msg \<Rightarrow> byte \<Rightarrow> bool \<times> msg_pool \<times> paged_msg" where
  "push_back pool m v = write_path pool m (push_back_page pool m v)"

text \<open>Modelled from the spec: \<open>push_front(v)\<close> allocates a new leading page when \<open>head = 0\<close>.\<close>

definition push_front_page :: "msg_pool \<Rightarrow> paged_msg \<Rightarrow> byte \<Rightarrow> bool \<times> msg_pool \<times> paged_msg" where
  "push_front_page pool m v =
     (if pages m = [] \<or> head m = 0 then
        (case acquire pool of
           None \<Rightarrow> (False, pool, m)
         | Some (p, pool1) \<Rightarrow>
             (True, write_byte pool1 p (page_size pool - 1) v,
              m\<lparr>pages := p # pages m, head := page_size pool - 1,
                tail := (if pages m = [] then page_size pool else tail m)\<rparr>))
      else (True, write_byte pool (hd (pages m)) (head m - 1) v, m\<lparr>head := head m - 1\<rparr>))"

definition push_front :: "msg_pool \<Rightarrow> paged_msg \<Rightarrow> byte \<Rightarrow> bool \<times> msg_pool \<times> paged_msg" where
  "push_front pool m v = write_path pool m (push_front_page pool m v)"

text \<open>
  Modelled from the spec: \<open>pop_back\<close> and \<open>pop_front\<close> are O(1) and release a page that
  becomes empty. Both are undefined on an empty message; the model leaves an empty
  message as it is.
\<close>

definition pop_back_page :: "msg_pool \<Rightarrow> paged_msg \<Rightarrow> bool \<times> msg_pool \<times> paged_msg" where
  "pop_back_page pool m =
     (if msg_size pool m = 0 then (True, pool, m)
      else if tail m - 1 = (if length (pages m) = 1 then head m else 0)
      then (True, release (last (pages m)) pool,
            (if butlast (pages m) = [] then m\<lparr>pages := [], head := 0, tail := 0\<rparr>
             else m\<lparr>pages := butlast (pages m), tail := page_size pool\<rparr>))
      else (True, pool, m\<lparr>tail := tail m - 1\<rparr>))"

definition msg_pop_back :: "msg_pool \<Rightarrow> paged_msg \<Rightarrow> bool \<times> msg_pool \<times> paged_msg" where
  "msg_pop_back pool m = write_path pool m (pop_back_page pool m)"

definition pop_front_page :: "msg_pool \<Rightarrow> paged_msg \<Rightarrow> bool \<times> msg_pool \<times> paged_msg" where
  "pop_front_page pool m =
     (if msg_size pool m = 0 then (True, pool, m)
      else if head m + 1 = (if length (pages m) = 1 then tail m else page_size pool)
      then (True, release (hd (pages m)) pool,
            (if tl (pages m) = [] then m\<lparr>pages := [], head := 0, tail := 0\<rparr>
             else m\<lparr>pages := tl (pages m), head := 0\<rparr>))
      else (True, pool, m\<lparr>head := head m + 1\<rparr>))"

definition msg_pop_front :: "msg_pool \<Rightarrow> paged_msg \<Rightarrow> bool \<times> msg_pool \<times> paged_msg" where
  "msg_pop_front pool m = write_path pool m (pop_front_page pool m)"

text \<open>
  Modelled from the spec: \<open>put(buf, n)\<close> appends the bytes of the buffer one after the
  other, allocating pages as needed, and fails when the pool is exhausted.
\<close>

fun put_pages :: "msg_pool \<Rightarrow> paged_msg \<Rightarrow> byte list \<Rightarrow> bool \<times> msg_pool \<times> paged_msg" where
  "put_pages pool m [] = (True, pool, m)"
| "put_pages pool m (v # vs) =
     (case push_back_page pool m v of
        (False, pool1, m1) \<Rightarrow> (False, pool1, m1)
      | (True, pool1, m1) \<Rightarrow> put_pages pool1 m1 vs)"

definition msg_put :: "msg_pool \<Rightarrow> paged_msg \<Rightarrow> byte list \<Rightarrow> bool \<times> msg_pool \<times> paged_msg" where
  "msg_put pool m buf = write_path pool m (put_pages pool m buf)"

text \<open>Modelled from the spec: \<open>clear()\<close> releases all pages and leaves the message empty and writable.\<close>

definition msg_clear :: "msg_pool \<Rightarrow> paged_msg \<Rightarrow> msg_pool \<times> paged_msg" where
  "msg_clear pool m = (fold release (pages m) pool, empty_msg)"

text \<open>
  Modelled from the spec: \<open>insert\<close>, \<open>erase\<close> and \<open>resize\<close> are O(size), may release
  and allocate pages, and fail when the pool is exhausted. The spec fixes their result
  on the byte sequence, not the page layout: the model releases the pages of the message
  and stores the new byte sequence in pages taken from the pool.
\<close>

definition store_bytes :: "msg_pool \<Rightarrow> paged_msg \<Rightarrow> byte list \<Rightarrow> bool \<times> msg_pool \<times> paged_msg" where
  "store_bytes pool m bs = put_pages (fst (msg_clear pool m)) empty_msg bs"

definition msg_insert :: "msg_pool \<Rightarrow> paged_msg \<Rightarrow> nat \<Rightarrow> byte \<Rightarrow> bool \<times> msg_pool \<times> paged_msg" where
  "msg_insert pool m i v =
     write_path pool m
       (store_bytes pool m (take i (msg_bytes pool m) @ [v] @ drop i (msg_bytes pool m)))"

definition msg_insert_fill ::
  "msg_pool \<Rightarrow> paged_msg \<Rightarrow> nat \<Rightarrow> nat \<Rightarrow> byte \<Rightarrow> bool \<times> msg_pool \<times> paged_msg" where
  "msg_insert_fill pool m i n v =
     write_path pool m
       (store_bytes pool m (take i (msg_bytes pool m) @ replicate n v @ drop i (msg_bytes pool m)))"

definition msg_insert_range ::
  "msg_pool \<Rightarrow> paged_msg \<Rightarrow> nat \<Rightarrow> byte list \<Rightarrow> bool \<times> msg_pool \<times> paged_msg" where
  "msg_insert_range pool m i vs =
     write_path pool m
       (store_bytes pool m (take i (msg_bytes pool m) @ vs @ drop i (msg_bytes pool m)))"

definition msg_erase :: "msg_pool \<Rightarrow> paged_msg \<Rightarrow> nat \<Rightarrow> bool \<times> msg_pool \<times> paged_msg" where
  "msg_erase pool m i =
     write_path pool m
       (store_bytes pool m (take i (msg_bytes pool m) @ drop (i + 1) (msg_bytes pool m)))"

definition msg_erase_range ::
  "msg_pool \<Rightarrow> paged_msg \<Rightarrow> nat \<Rightarrow> nat \<Rightarrow> bool \<times> msg_pool \<times> paged_msg" where
  "msg_erase_range pool m i j =
     write_path pool m
       (store_bytes pool m (take i (msg_bytes pool m) @ drop (max i j) (msg_bytes pool m)))"

definition msg_resize :: "msg_pool \<Rightarrow> paged_msg \<Rightarrow> nat \<Rightarrow> bool \<times> msg_pool \<times> paged_msg" where
  "msg_resize pool m n =
     write_path pool m
       (store_bytes pool m (take n (msg_bytes pool m) @ replicate (n - msg_size pool m) 0))"

text \<open>
  Modelled from the spec: \<open>append(other)\<close> is the logical concatenation. Sharing the
  pages of \<open>other\<close> is left out: it does not change the byte sequence.
\<close>

definition msg_append :: "msg_pool \<Rightarrow> paged_msg \<Rightarrow> paged_msg \<Rightarrow> bool \<times> msg_pool \<times> paged_msg" where
  "msg_append pool m other = write_path pool m (put_pages pool m (msg_bytes pool other))"

text \<open>
  The mutating operations of the container and their dispatch. \<open>clear\<close> and
  \<open>ref_copy\<close> are not among them: they give pages up and write to none.
\<close>

datatype mutation =
  Push_back byte
  | Push_front byte
  | Pop_back
  | Pop_front
  | Insert nat byte
  | Insert_fill nat nat byte
  | Insert_range nat "byte list"
  | Erase nat
  | Erase_range nat nat
  | Resize nat
  | Put "byte list"
  | Append paged_msg

fun msg_mutate :: "msg_pool \<Rightarrow> paged_msg \<Rightarrow> mutation \<Rightarrow> bool \<times> msg_pool \<times> paged_msg" where
  "msg_mutate pool m (Push_back v) = push_back pool m v"
| "msg_mutate pool m (Push_front v) = push_front pool m v"
| "msg_mutate pool m Pop_back = msg_pop_back pool m"
| "msg_mutate pool m Pop_front = msg_pop_front pool m"
| "msg_mutate pool m (Insert i v) = msg_insert pool m i v"
| "msg_mutate pool m (Insert_fill i n v) = msg_insert_fill pool m i n v"
| "msg_mutate pool m (Insert_range i vs) = msg_insert_range pool m i vs"
| "msg_mutate pool m (Erase i) = msg_erase pool m i"
| "msg_mutate pool m (Erase_range i j) = msg_erase_range pool m i j"
| "msg_mutate pool m (Resize n) = msg_resize pool m n"
| "msg_mutate pool m (Put buf) = msg_put pool m buf"
| "msg_mutate pool m (Append other) = msg_append pool m other"

subsection \<open>Cheap copy\<close>

text \<open>
  Modelled from the spec: \<open>b.ref_copy(a)\<close> drops what \<open>b\<close> held and shares the pages
  of \<open>a\<close> by incrementing their reference counts; \<open>b\<close> takes the page list and the
  window of \<open>a\<close>, and both sides are marked \<open>shared\<close>. The result is the pool, the
  source \<open>a\<close> and the copy \<open>b\<close>.
\<close>

definition ref_copy :: "msg_pool \<Rightarrow> paged_msg \<Rightarrow> paged_msg \<Rightarrow> msg_pool \<times> paged_msg \<times> paged_msg" where
  "ref_copy pool b a =
     (fold acquire_ref (pages a) (fst (msg_clear pool b)),
      a\<lparr>shared := True\<rparr>,
      a\<lparr>shared := True\<rparr>)"

subsection \<open>Invariants\<close>

text \<open>
  Well-formedness of a message in a pool: the pages exist and have \<open>page_size\<close> bytes,
  and the window lies inside the first and the last page.
\<close>

definition msg_wf :: "msg_pool \<Rightarrow> paged_msg \<Rightarrow> bool" where
  "msg_wf pool m =
     (0 < page_size pool
      \<and> list_all (\<lambda>p. p < length (pool_pages pool)
                      \<and> length (page_data (pool_pages pool ! p)) = page_size pool) (pages m)
      \<and> head m < page_size pool \<and> tail m \<le> page_size pool)"

text \<open>
  The pool accounts for the messages \<open>a\<close> and \<open>b\<close>: every page of \<open>a\<close> exists, is not
  on the free list, and is referenced at least as often as \<open>a\<close> and \<open>b\<close> together
  hold it.
\<close>

definition accounted :: "msg_pool \<Rightarrow> paged_msg \<Rightarrow> paged_msg \<Rightarrow> bool" where
  "accounted pool a b =
     list_all (\<lambda>q. q < length (pool_pages pool)
                    \<and> q \<notin> set (free_list pool)
                    \<and> count_list (pages a) q + count_list (pages b) q
                        \<le> ref_count (pool_pages pool ! q)) (pages a)"

text \<open>The free list is consistent: it names existing pages, each once.\<close>

definition pool_ok :: "msg_pool \<Rightarrow> bool" where
  "pool_ok pool =
     (distinct (free_list pool) \<and> list_all (\<lambda>p. p < length (pool_pages pool)) (free_list pool))"

text \<open>The pages of a message are allocated: they exist, are referenced and are not free.\<close>

definition allocated :: "msg_pool \<Rightarrow> paged_msg \<Rightarrow> bool" where
  "allocated pool m =
     list_all (\<lambda>q. q < length (pool_pages pool)
                    \<and> q \<notin> set (free_list pool)
                    \<and> 0 < ref_count (pool_pages pool ! q)) (pages m)"

subsection \<open>The message of the container tests\<close>

text \<open>
  The message \<open>m\<close> of the copy test and of the element access test of the container:
  the four bytes 1, 4, 9, 16, here in a pool of four pages of three bytes, so that the
  message spans two pages.
\<close>

definition test_pool :: msg_pool where
  "test_pool = fst (snd (msg_put (pool_init 3 4) empty_msg [1, 4, 9, 16]))"

definition test_msg :: paged_msg where
  "test_msg = snd (snd (msg_put (pool_init 3 4) empty_msg [1, 4, 9, 16]))"

section \<open>Properties of the SLIP protocol\<close>

lemma slip_stuff_acc: "slip_stuff tx p = tx @ slip_stuff [] p"
proof (induction p arbitrary: tx)
  case Nil
  show ?case by simp
next
  case (Cons b p)
  show ?case
    using Cons.IH [of "tx @ [ESC, ESC_END]"] Cons.IH [of "[ESC, ESC_END]"]
      Cons.IH [of "tx @ [ESC, ESC_ESC]"] Cons.IH [of "[ESC, ESC_ESC]"]
      Cons.IH [of "tx @ [b]"] Cons.IH [of "[b]"]
    by simp
qed

lemma slip_rx_loop_append:
  "slip_rx_loop s (xs @ ys) =
     (let (s1, ev1) = slip_rx_loop s xs; (s2, ev2) = slip_rx_loop s1 ys in (s2, ev1 @ ev2))"
  by (induction xs arbitrary: s) (simp_all add: split_beta Let_def del: slip_rx_byte.simps)

text \<open>In the data state the decoder undoes the stuffing of any byte sequence.\<close>

lemma slip_rx_stuffed:
  "rx_state r = RCV_DATA \<Longrightarrow>
   slip_rx_loop r (slip_stuff [] p) = (r\<lparr>rx_msg := rx_msg r @ p\<rparr>, [])"
proof (induction p arbitrary: r)
  case Nil
  then show ?case by simp
next
  case (Cons b p)
  have step: "slip_rx_loop r (slip_stuff [] [b]) = (r\<lparr>rx_msg := rx_msg r @ [b]\<rparr>, [])"
    using Cons.prems by (simp add: END_def ESC_def ESC_END_def ESC_ESC_def)
  have "slip_stuff [] (b # p) = slip_stuff [] [b] @ slip_stuff [] p"
    using slip_stuff_acc [of "slip_stuff [] [b]" p] by simp
  then show ?case
    using step Cons.IH [of "r\<lparr>rx_msg := rx_msg r @ [b]\<rparr>"] Cons.prems
    by (simp add: slip_rx_loop_append del: slip_rx_byte.simps slip_stuff.simps)
qed

lemma slip_wire:
  "is_open s \<Longrightarrow> tx_msg s = [] \<Longrightarrow>
   slip_send s p ident False lower_res =
     (lower_res, s, [Lower_send (END # slip_stuff [] p @ [END]) ident False])"
  using slip_stuff_acc [of "[END]" p] by (simp add: slip_send_def Let_def)

lemma slip_decode_wire:
  assumes "is_open r" and "rx_state r = RCV_IDLE" and "rx_msg r = []"
  shows "slip_receive r (END # slip_stuff [] p @ [END]) ident more_frag =
     (r, if p = [] then [] else [Upper_receive p eid_any False])"
proof -
  let ?r1 = "r\<lparr>rx_state := RCV_DATA\<rparr>"
  have a: "slip_rx_byte r END = (?r1, [])"
    using assms by simp
  have b: "slip_rx_loop ?r1 (slip_stuff [] p) = (?r1\<lparr>rx_msg := p\<rparr>, [])"
    using slip_rx_stuffed [of ?r1 p] assms by simp
  have c: "slip_rx_loop (?r1\<lparr>rx_msg := p\<rparr>) [END] =
             (r, if p = [] then [] else [Upper_receive p eid_any False])"
    using assms by (simp add: END_def ESC_def)
  show ?thesis
    using assms a b c
    by (simp add: slip_receive_def slip_rx_loop_append del: slip_rx_byte.simps)
qed

text \<open>
  Claim C1, as stated, at the empty packet: the encoder of an open layer emits the two
  delimiters \<open>[END, END]\<close>, and the decoder of an open, idle layer that is fed these two
  bytes delivers nothing upward, since it discards empty packets. The empty byte
  sequence is therefore not delivered.
\<close>

theorem slip_roundtrip_empty_counterexample:
  "slip_send (slip_ctor True\<lparr>is_open := True\<rparr>) [] eid_any False True =
     (True, slip_ctor True\<lparr>is_open := True\<rparr>, [Lower_send [0xC0, 0xC0] eid_any False])
   \<and> snd (slip_receive (slip_ctor True\<lparr>is_open := True\<rparr>) [0xC0, 0xC0] eid_any False)
       \<noteq> [Upper_receive [] eid_any False]
   \<and> snd (slip_receive (slip_ctor True\<lparr>is_open := True\<rparr>) [0xC0, 0xC0] eid_any False) = []"
  by (simp add: slip_send_def slip_receive_def slip_ctor_def END_def ESC_def)

text \<open>
  Claim C1, amended: on an open slip layer with an empty transmit buffer, \<open>send\<close> with
  \<open>more = false\<close> hands exactly one wire message to the lower layer; an open decoder
  that is idle with an empty receive buffer and is fed this wire message delivers
  exactly the packet \<open>p\<close> upward when \<open>p\<close> is not empty (whatever special bytes it
  contains, wherever they stand), delivers nothing when \<open>p\<close> is empty, and is idle with
  an empty buffer again. The packet \<open>[0xC0, 0xDB, 0x00]\<close> is encoded as
  \<open>[0xC0, 0xDB, 0xDC, 0xDB, 0xDD, 0x00, 0xC0]\<close>.
\<close>

theorem slip_roundtrip:
  assumes "is_open s" and "tx_msg s = []"
    and "is_open r" and "rx_state r = RCV_IDLE" and "rx_msg r = []"
  shows "(\<exists>wire. slip_send s p ident False lower_res = (lower_res, s, [Lower_send wire ident False])
            \<and> slip_receive r wire ident2 more_frag =
                (r, if p = [] then [] else [Upper_receive p eid_any False]))
         \<and> slip_send s [0xC0, 0xDB, 0x00] ident False lower_res =
             (lower_res, s, [Lower_send [0xC0, 0xDB, 0xDC, 0xDB, 0xDD, 0x00, 0xC0] ident False])"
proof
  show "\<exists>wire. slip_send s p ident False lower_res = (lower_res, s, [Lower_send wire ident False])
           \<and> slip_receive r wire ident2 more_frag =
               (r, if p = [] then [] else [Upper_receive p eid_any False])"
    using slip_wire [OF assms(1,2)] slip_decode_wire [OF assms(3,4,5)] by blast
  show "slip_send s [0xC0, 0xDB, 0x00] ident False lower_res =
           (lower_res, s, [Lower_send [0xC0, 0xDB, 0xDC, 0xDB, 0xDD, 0x00, 0xC0] ident False])"
    using assms(1,2) by (simp add: slip_send_def END_def ESC_def ESC_END_def ESC_ESC_def)
qed

theorem slip_roundtrip_witness:
  "is_open (slip_ctor True\<lparr>is_open := True\<rparr>)
   \<and> tx_msg (slip_ctor True\<lparr>is_open := True\<rparr>) = []
   \<and> rx_state (slip_ctor True\<lparr>is_open := True\<rparr>) = RCV_IDLE
   \<and> rx_msg (slip_ctor True\<lparr>is_open := True\<rparr>) = []
   \<and> (\<exists>wire. slip_send (slip_ctor True\<lparr>is_open := True\<rparr>) [0xDB, 0x41, 0xC0] eid_any False True =
                (True, slip_ctor True\<lparr>is_open := True\<rparr>, [Lower_send wire eid_any False])
            \<and> slip_receive (slip_ctor True\<lparr>is_open := True\<rparr>) wire eid_any False =
                (slip_ctor True\<lparr>is_open := True\<rparr>, [Upper_receive [0xDB, 0x41, 0xC0] eid_any False]))"
proof -
  let ?s = "slip_ctor True\<lparr>is_open := True\<rparr>"
  have h: "is_open ?s" "tx_msg ?s = []" "rx_state ?s = RCV_IDLE" "rx_msg ?s = []"
    by (simp_all add: slip_ctor_def)
  show ?thesis
    using h slip_roundtrip [OF h(1) h(2) h(1) h(3) h(4), of "[0xDB, 0x41, 0xC0]" eid_any True eid_any False]
    by simp
qed


text \<open>
  Claim C10: while the slip layer is not open, \<open>send\<close> returns false and emits nothing,
  and \<open>receive\<close> leaves the decoder state as it is and delivers nothing. A freshly
  constructed layer is not open, and neither is a layer after \<open>close\<close>; \<open>close\<close>
  clears the receive and the transmit buffer and resets the decoder to idle.
\<close>

theorem slip_not_open:
  "(\<not> is_open s \<longrightarrow>
      slip_send s packet ident more_frag lower_res = (False, s, [])
      \<and> slip_receive s data ident more_frag = (s, []))
   \<and> \<not> is_open (slip_ctor up)
   \<and> \<not> is_open (fst (slip_close s ident))
   \<and> rx_msg (fst (slip_close s ident)) = []
   \<and> tx_msg (fst (slip_close s ident)) = []
   \<and> rx_state (fst (slip_close s ident)) = RCV_IDLE
   \<and> snd (slip_close s ident) = [Lower_close ident]"
  by (simp add: slip_send_def slip_receive_def slip_ctor_def slip_close_def)

text \<open>
  A layer that received the first half of a frame and is then closed: the partial frame
  is dropped, and the bytes that follow are ignored.
\<close>

theorem slip_not_open_witness:
  "rx_msg (fst (slip_receive (slip_ctor True\<lparr>is_open := True\<rparr>) [0xC0, 0x01, 0x02] eid_any False)) = [0x01, 0x02]
   \<and> \<not> is_open (fst (slip_close (fst (slip_receive (slip_ctor True\<lparr>is_open := True\<rparr>) [0xC0, 0x01, 0x02] eid_any False)) eid_any))
   \<and> slip_receive (fst (slip_close (fst (slip_receive (slip_ctor True\<lparr>is_open := True\<rparr>) [0xC0, 0x01, 0x02] eid_any False)) eid_any))
        [0x03, 0xC0] eid_any False =
       (slip_ctor True, [])
   \<and> slip_send (slip_ctor True) [0x01] eid_any False True = (False, slip_ctor True, [])"
proof -
  let ?c = "fst (slip_close (fst (slip_receive (slip_ctor True\<lparr>is_open := True\<rparr>) [0xC0, 0x01, 0x02] eid_any False)) eid_any)"
  have c: "?c = slip_ctor True"
    by (simp add: slip_receive_def slip_close_def slip_ctor_def END_def ESC_def)
  have n: "\<not> is_open (slip_ctor True)"
    by (simp add: slip_ctor_def)
  have r: "rx_msg (fst (slip_receive (slip_ctor True\<lparr>is_open := True\<rparr>) [0xC0, 0x01, 0x02] eid_any False)) = [0x01, 0x02]"
    by (simp add: slip_receive_def slip_ctor_def END_def ESC_def)
  from slip_not_open [where s = "slip_ctor True" and packet = "[0x01]" and ident = eid_any
      and more_frag = False and lower_res = True and data = "[0x03, 0xC0]"] n
  have "slip_send (slip_ctor True) [0x01] eid_any False True = (False, slip_ctor True, [])
        \<and> slip_receive (slip_ctor True) [0x03, 0xC0] eid_any False = (slip_ctor True, [])"
    by blast
  with c n r show ?thesis by simp
qed


section \<open>Opening a layer without an upper layer\<close>

text \<open>
  Claim C9: a layer whose upper back-reference is not wired refuses to open: \<open>open\<close>
  returns false, leaves the layer as it is and makes no call at all, so the lower layer
  is not opened (for the serial communicator: the port is not opened). This holds for
  the iso15765 protocol, the slip protocol and the serial communicator.
\<close>

theorem open_without_upper:
  "(\<not> upper s1 \<longrightarrow> iso15765_open s1 address ident lower_res = (False, s1, []))
   \<and> (\<not> upper s2 \<longrightarrow> slip_open s2 address ident lower_res = (False, s2, []))
   \<and> (\<not> upper s3 \<longrightarrow> serial_open s3 address os = (False, s3, []))"
  by (simp add: iso15765_open_def slip_open_def serial_open_def)

theorem open_without_upper_witness:
  "\<not> upper (iso15765_ctor False 50 3 4095)
   \<and> iso15765_open (iso15765_ctor False 50 3 4095) ''COM1'' eid_any True =
       (False, iso15765_ctor False 50 3 4095, [])
   \<and> \<not> upper (slip_ctor False)
   \<and> slip_open (slip_ctor False) ''COM1'' eid_any True = (False, slip_ctor False, [])
   \<and> \<not> upper (serial_ctor False)
   \<and> serial_open (serial_ctor False) ''COM1''
        \<lparr>create_file_ok = True, set_comm_state_ok = True, set_comm_timeouts_ok = True,
         beginthreadex_ok = True\<rparr> =
       (False, serial_ctor False, [])
   \<and> fst (slip_open (slip_ctor True) ''COM1'' eid_any True)
   \<and> snd (snd (slip_open (slip_ctor True) ''COM1'' eid_any True)) = [Lower_open ''COM1'' eid_any]"
proof -
  have u: "\<not> upper (iso15765_ctor False 50 3 4095)" "\<not> upper (slip_ctor False)"
    "\<not> upper (serial_ctor False)"
    by (simp_all add: iso15765_ctor_def slip_ctor_def serial_ctor_def)
  have w: "fst (slip_open (slip_ctor True) ''COM1'' eid_any True)
           \<and> snd (snd (slip_open (slip_ctor True) ''COM1'' eid_any True)) = [Lower_open ''COM1'' eid_any]"
    by (simp add: slip_open_def slip_ctor_def)
  from u w open_without_upper [where ?s1.0 = "iso15765_ctor False 50 3 4095" and address = "''COM1''"
      and ident = eid_any and lower_res = True and ?s2.0 = "slip_ctor False"
      and ?s3.0 = "serial_ctor False"
      and os = "\<lparr>create_file_ok = True, set_comm_state_ok = True, set_comm_timeouts_ok = True,
        beginthreadex_ok = True\<rparr>"]
  show ?thesis by blast
qed


section \<open>Properties of the ISO 15765-2 protocol\<close>

lemmas iso15765_consts =
  NPCI_SINGLE_FRAME_def NPCI_FIRST_FRAME_def NPCI_CONSECUTIVE_FRAME_def NPCI_FLOW_CONTROL_def
  SF_DATALENGTH_def FF_DATALENGTH_def CF_DATALENGTH_def FC_DATALENGTH_def
  SF_DATALENGTH_EXT_def FF_DATALENGTH_EXT_def CF_DATALENGTH_EXT_def FRAME_LENGTH_def
  FC_CTS_def FC_WAIT_def N_As_def N_Bs_def N_Cr_def CF_MAX_FRAME_SIZE_def CF_MAX_BUFFER_SIZE_def

lemma single_frame_pci:
  assumes "n \<le> 7"
  shows "NPCI_SINGLE_FRAME OR ((of_nat n :: byte) AND 0x0F) = of_nat n"
proof -
  from assms consider "n = 0" | "n = 1" | "n = 2" | "n = 3" | "n = 4" | "n = 5" | "n = 6" | "n = 7"
    by arith
  then show ?thesis
    by cases (simp_all add: NPCI_SINGLE_FRAME_def)
qed

text \<open>
  Claim C3: with normal addressing and no transfer in progress (\<open>CF_DL_ = 0\<close>, the idle
  sender), \<open>send\<close> of a payload of 1 to 7 bytes hands exactly one frame to the lower
  layer: the byte \<open>0x00 | |p|\<close> followed by the payload (and by the zero padding, if
  that is switched on), and the sender stays idle; \<open>[1,5,9]\<close> gives
  \<open>[0x03, 0x01, 0x05, 0x09]\<close>. A payload of 8 bytes gives the First Frame
  \<open>[0x10, 0x08]\<close> with the first six bytes instead; the sender then holds the message
  with six bytes sent and waits for flow control, and its next Consecutive Frame is
  \<open>0x21\<close> with the two remaining bytes.
\<close>

theorem iso15765_send_single_or_first:
  assumes "\<not> use_ext_adr s" and "CF_DL s = 0"
  shows "(0 < length p \<and> length p \<le> 7 \<longrightarrow>
            iso15765_send s p ident more_frag lower_res =
              (lower_res, s,
               [Lower_send (if use_zero_padding s then zero_padding (of_nat (length p) # p)
                            else of_nat (length p) # p) ident False]))
         \<and> (\<not> use_zero_padding s \<longrightarrow>
              iso15765_send s [0x01, 0x05, 0x09] ident more_frag lower_res =
                (lower_res, s, [Lower_send [0x03, 0x01, 0x05, 0x09] ident False]))
         \<and> (length p = 8 \<longrightarrow>
              fst (iso15765_send s p ident more_frag lower_res) = lower_res
              \<and> snd (snd (iso15765_send s p ident more_frag lower_res)) =
                  [Lower_send ([0x10, 0x08] @ take 6 p) ident False]
              \<and> CF_frame (fst (snd (iso15765_send s p ident more_frag True))) = p
              \<and> CF_DL (fst (snd (iso15765_send s p ident more_frag True))) = 6
              \<and> timer_TX_FC (fst (snd (iso15765_send s p ident more_frag True))) = Some N_Bs
              \<and> snd (snd (send_CF (fst (snd (iso15765_send s p ident more_frag True))\<lparr>tx_ev := True\<rparr>) lower_res)) =
                  [Lower_send (if use_zero_padding s then zero_padding (0x21 # drop 6 p)
                               else 0x21 # drop 6 p) ident False])"
proof (intro conjI impI)
  assume p: "0 < length p \<and> length p \<le> 7"
  then have "NPCI_SINGLE_FRAME OR ((of_nat (length p) :: byte) AND 0x0F) = of_nat (length p)"
    by (simp add: single_frame_pci)
  with p assms show "iso15765_send s p ident more_frag lower_res =
      (lower_res, s,
       [Lower_send (if use_zero_padding s then zero_padding (of_nat (length p) # p)
                    else of_nat (length p) # p) ident False])"
    by (simp add: iso15765_send_def Let_def CF_MAX_FRAME_SIZE_def SF_DATALENGTH_def)
next
  assume "\<not> use_zero_padding s"
  with assms show "iso15765_send s [0x01, 0x05, 0x09] ident more_frag lower_res =
      (lower_res, s, [Lower_send [0x03, 0x01, 0x05, 0x09] ident False])"
    by (simp add: iso15765_send_def Let_def iso15765_consts)
next
  assume "length p = 8"
  with assms show "fst (iso15765_send s p ident more_frag lower_res) = lower_res"
    by (simp add: iso15765_send_def Let_def iso15765_consts)
next
  assume "length p = 8"
  with assms show "snd (snd (iso15765_send s p ident more_frag lower_res)) =
      [Lower_send ([0x10, 0x08] @ take 6 p) ident False]"
    by (simp add: iso15765_send_def Let_def iso15765_consts)
next
  assume "length p = 8"
  with assms show "CF_frame (fst (snd (iso15765_send s p ident more_frag True))) = p"
    by (simp add: iso15765_send_def Let_def iso15765_consts)
next
  assume "length p = 8"
  with assms show "CF_DL (fst (snd (iso15765_send s p ident more_frag True))) = 6"
    by (simp add: iso15765_send_def Let_def iso15765_consts)
next
  assume "length p = 8"
  with assms show "timer_TX_FC (fst (snd (iso15765_send s p ident more_frag True))) = Some N_Bs"
    by (simp add: iso15765_send_def Let_def iso15765_consts)
next
  assume "length p = 8"
  with assms show "snd (snd (send_CF (fst (snd (iso15765_send s p ident more_frag True))\<lparr>tx_ev := True\<rparr>) lower_res)) =
      [Lower_send (if use_zero_padding s then zero_padding (0x21 # drop 6 p)
                   else 0x21 # drop 6 p) ident False]"
    by (simp add: iso15765_send_def send_CF_def Let_def iso15765_consts)
qed

theorem iso15765_send_single_or_first_witness:
  "\<not> use_ext_adr (iso15765_ctor True 50 3 4095)
   \<and> CF_DL (iso15765_ctor True 50 3 4095) = 0
   \<and> iso15765_send (iso15765_ctor True 50 3 4095) [0x01, 0x05, 0x09] (eid_of 10) False True =
       (True, iso15765_ctor True 50 3 4095, [Lower_send [0x03, 0x01, 0x05, 0x09] (eid_of 10) False])
   \<and> iso15765_send (iso15765_ctor True 50 3 4095) [1, 2, 3, 4, 5, 6, 7] (eid_of 10) False True =
       (True, iso15765_ctor True 50 3 4095, [Lower_send [0x07, 1, 2, 3, 4, 5, 6, 7] (eid_of 10) False])
   \<and> snd (snd (iso15765_send (iso15765_ctor True 50 3 4095) [1, 2, 3, 4, 5, 6, 7, 8] (eid_of 10) False True)) =
       [Lower_send [0x10, 0x08, 1, 2, 3, 4, 5, 6] (eid_of 10) False]"
proof -
  let ?s = "iso15765_ctor True 50 3 4095"
  have h: "\<not> use_ext_adr ?s" "CF_DL ?s = 0" "\<not> use_zero_padding ?s"
    by (simp_all add: iso15765_ctor_def)
  note t = iso15765_send_single_or_first [OF h(1) h(2), where ident = "eid_of 10"
      and more_frag = False and lower_res = True]
  have a: "iso15765_send ?s [0x01, 0x05, 0x09] (eid_of 10) False True =
             (True, ?s, [Lower_send [0x03, 0x01, 0x05, 0x09] (eid_of 10) False])"
    using t [of "[]"] h(3) by blast
  have b: "iso15765_send ?s [1, 2, 3, 4, 5, 6, 7] (eid_of 10) False True =
             (True, ?s, [Lower_send [0x07, 1, 2, 3, 4, 5, 6, 7] (eid_of 10) False])"
    using t [of "[1, 2, 3, 4, 5, 6, 7]"] h(3) by simp
  have c: "snd (snd (iso15765_send ?s [1, 2, 3, 4, 5, 6, 7, 8] (eid_of 10) False True)) =
             [Lower_send [0x10, 0x08, 1, 2, 3, 4, 5, 6] (eid_of 10) False]"
    using t [of "[1, 2, 3, 4, 5, 6, 7, 8]"] by simp
  from h a b c show ?thesis by blast
qed


text \<open>
  Claim C2: with normal addressing and no zero padding, \<open>send\<close> of the payload
  \<open>[1,2,3,4,5,6,7,8]\<close> on an idle sender hands the First Frame
  \<open>[0x10, 0x08, 0x01, 0x02, 0x03, 0x04, 0x05, 0x06]\<close> to the lower layer and starts the
  N_Bs timer. After the \<open>tx_done\<close> indication and the peer's Flow Control frame
  \<open>[0x30, 0x00, 0x00]\<close>, which stops the N_Bs timer and starts the STmin timer with 0
  milliseconds, the expiry of that timer hands the Consecutive Frame
  \<open>[0x21, 0x07, 0x08]\<close> to the lower layer.
\<close>

theorem iso15765_first_then_consecutive:
  assumes "\<not> use_ext_adr s" and "\<not> use_zero_padding s" and "CF_DL s = 0"
  shows "let r1 = iso15765_send s [1, 2, 3, 4, 5, 6, 7, 8] ident more_frag True;
             s1 = fst (snd r1);
             s2 = fst (iso15765_indication s1 tx_done ident2);
             r3 = iso15765_receive s2 [0x30, 0x00, 0x00] ident3 more_frag3;
             s3 = fst r3;
             r4 = timer_func_TX_CF s3 lower_res
         in fst r1
            \<and> snd (snd r1) = [Lower_send [0x10, 0x08, 0x01, 0x02, 0x03, 0x04, 0x05, 0x06] ident False]
            \<and> timer_TX_FC s1 = Some N_Bs
            \<and> snd r3 = [] \<and> timer_TX_FC s3 = None \<and> timer_TX_CF s3 = Some 0
            \<and> fst r4 = lower_res
            \<and> snd (snd r4) = [Lower_send [0x21, 0x07, 0x08] ident False]"
  using assms
  by (simp add: Let_def iso15765_send_def iso15765_indication_def iso15765_receive_def
      receive_FC_def timer_func_TX_CF_def send_CF_def msg_index_def iso15765_consts)

theorem iso15765_first_then_consecutive_witness:
  "\<not> use_ext_adr (iso15765_ctor True 50 3 4095)
   \<and> \<not> use_zero_padding (iso15765_ctor True 50 3 4095)
   \<and> CF_DL (fst (snd (iso15765_open (iso15765_ctor True 50 3 4095) [] eid_any True))) = 0
   \<and> snd (snd (iso15765_send (fst (snd (iso15765_open (iso15765_ctor True 50 3 4095) [] eid_any True)))
             [1, 2, 3, 4, 5, 6, 7, 8] (eid_of 10) False True)) =
       [Lower_send [0x10, 0x08, 0x01, 0x02, 0x03, 0x04, 0x05, 0x06] (eid_of 10) False]
   \<and> snd (snd (timer_func_TX_CF
         (fst (iso15765_receive
            (fst (iso15765_indication
               (fst (snd (iso15765_send (fst (snd (iso15765_open (iso15765_ctor True 50 3 4095) [] eid_any True)))
                  [1, 2, 3, 4, 5, 6, 7, 8] (eid_of 10) False True)))
               tx_done (eid_of 10)))
            [0x30, 0x00, 0x00] (eid_of 1) False))
         True)) =
       [Lower_send [0x21, 0x07, 0x08] (eid_of 10) False]"
proof -
  let ?s = "fst (snd (iso15765_open (iso15765_ctor True 50 3 4095) [] eid_any True))"
  have h: "\<not> use_ext_adr ?s" "\<not> use_zero_padding ?s" "CF_DL ?s = 0"
    by (simp_all add: iso15765_ctor_def iso15765_open_def)
  have h0: "\<not> use_ext_adr (iso15765_ctor True 50 3 4095)"
    "\<not> use_zero_padding (iso15765_ctor True 50 3 4095)"
    by (simp_all add: iso15765_ctor_def)
  from iso15765_first_then_consecutive [OF h, where ident = "eid_of 10" and more_frag = False
      and ?ident2.0 = "eid_of 10" and ?ident3.0 = "eid_of 1" and ?more_frag3.0 = False
      and lower_res = True]
  show ?thesis
    using h0 h(3) by (simp add: Let_def)
qed

text \<open>
  What \<open>receive\<close> does with a well-formed Flow Control frame under normal addressing:
  the N_Bs timer is stopped, the three fields are stored and the block counter is reset;
  on CTS the STmin timer is started with the peer's STmin. On WAIT nothing else happens.
\<close>

lemma receive_flow_control:
  assumes "\<not> use_ext_adr s"
    and "msg_index data 0 AND 0xF0 = NPCI_FLOW_CONTROL"
    and "FC_DATALENGTH \<le> length data"
    and "unat (msg_index data 0 AND 0x0F) \<le> 1"
  shows "iso15765_receive s data ident more_frag =
     (s\<lparr>timer_TX_FC := None,
        FC_FS := msg_index data 0 AND 0x01,
        FC_BS := msg_index data 1,
        FC_STmin := msg_index data 2,
        CF_BScnt := 0,
        timer_TX_CF := (if msg_index data 0 AND 0x01 = FC_CTS
                        then Some (unat (msg_index data 2)) else timer_TX_CF s)\<rparr>, [])"
  using assms
  by (simp add: iso15765_receive_def receive_FC_def Let_def iso15765_consts)

text \<open>
  Claim C4 at a Flow Control frame with flow status WAIT: the sender has sent the First
  Frame of an 8 byte message and waits for flow control with the N_Bs timer running. The
  frame \<open>[0x31, 0x00, 0x00]\<close> stops the N_Bs timer and stores flow status WAIT, and then
  no timer of the sender is running: the N_Bs timer is not restarted. The transfer stays
  in progress (\<open>CF_DL_ = 6\<close>), so the next \<open>send\<close> is refused.
\<close>

theorem flow_control_wait_no_timer:
  "timer_TX_FC (fst (snd (iso15765_send (iso15765_ctor True 50 3 4095) [1, 2, 3, 4, 5, 6, 7, 8] eid_any False True)))
     = Some N_Bs
   \<and> iso15765_receive
        (fst (snd (iso15765_send (iso15765_ctor True 50 3 4095) [1, 2, 3, 4, 5, 6, 7, 8] eid_any False True)))
        [0x31, 0x00, 0x00] eid_any False =
      (iso15765_ctor True 50 3 4095
         \<lparr>CF_frame := [1, 2, 3, 4, 5, 6, 7, 8], CF_SN := 1, CF_DL := 6, CF_size := 8,
          FC_FS := FC_WAIT, timer_TX_CF := None, timer_TX_FC := None, timer_RX_CF := None\<rparr>, [])
   \<and> fst (iso15765_send
        (fst (iso15765_receive
           (fst (snd (iso15765_send (iso15765_ctor True 50 3 4095) [1, 2, 3, 4, 5, 6, 7, 8] eid_any False True)))
           [0x31, 0x00, 0x00] eid_any False))
        [0x01] eid_any False True) = False"
  by (simp add: iso15765_ctor_def iso15765_send_def iso15765_receive_def receive_FC_def
      msg_index_def Let_def iso15765_consts)

text \<open>
  Claim C5, as stated, at two malformed Flow Control frames: the sender has sent the
  First Frame of an 8 byte message. The frame \<open>[0x32, 0x00, 0x00]\<close> (flow status 2) and
  the frame \<open>[0x30, 0x00]\<close> (too short) each raise \<open>rx_error\<close>, not \<open>rx_timeout\<close>,
  and leave \<open>CF_DL_\<close> and \<open>CF_frame_\<close> as they are.
\<close>

theorem malformed_flow_control_counterexample:
  "iso15765_receive
      (fst (snd (iso15765_send (iso15765_ctor True 50 3 4095) [1, 2, 3, 4, 5, 6, 7, 8] eid_any False True)))
      [0x32, 0x00, 0x00] eid_any False =
     (iso15765_ctor True 50 3 4095
        \<lparr>CF_frame := [1, 2, 3, 4, 5, 6, 7, 8], CF_SN := 1, CF_DL := 6, CF_size := 8,
         timer_TX_FC := None\<rparr>, [Upper_indication rx_error eid_any])
   \<and> iso15765_receive
      (fst (snd (iso15765_send (iso15765_ctor True 50 3 4095) [1, 2, 3, 4, 5, 6, 7, 8] eid_any False True)))
      [0x30, 0x00] eid_any False =
     (iso15765_ctor True 50 3 4095
        \<lparr>CF_frame := [1, 2, 3, 4, 5, 6, 7, 8], CF_SN := 1, CF_DL := 6, CF_size := 8,
         timer_TX_FC := None\<rparr>, [Upper_indication rx_error eid_any])"
  by (simp add: iso15765_ctor_def iso15765_send_def iso15765_receive_def receive_FC_def
      msg_index_def Let_def iso15765_consts)

text \<open>
  Claim C5, amended: the expiry of the N_Bs timer aborts the transfer in progress:
  \<open>CF_DL_\<close> is set to 0, \<open>CF_frame_\<close> is cleared and \<open>rx_timeout\<close> is raised to the
  upper layer. A malformed Flow Control frame (shorter than three bytes, or with a flow
  status nibble greater than 1) that passes the address check stops the N_Bs timer and
  raises \<open>rx_error\<close> to the upper layer.
\<close>

theorem flow_control_timeout_and_malformed:
  assumes "data = (if use_ext_adr s then pop_front data0 else data0)"
    and "use_ext_adr s \<longrightarrow> msg_index data0 0 = ext_source_adr s"
    and "msg_index data 0 AND 0xF0 = NPCI_FLOW_CONTROL"
    and "length data < FC_DATALENGTH \<or> 1 < unat (msg_index data 0 AND 0x0F)"
  shows "timer_func_TX_FC s =
           (s\<lparr>timer_TX_FC := None, CF_DL := 0, CF_frame := []\<rparr>, [Upper_indication rx_timeout eid_any])
         \<and> snd (iso15765_receive s data0 ident more_frag) = [Upper_indication rx_error ident]
         \<and> timer_TX_FC (fst (iso15765_receive s data0 ident more_frag)) = None"
  using assms
  by (auto simp add: timer_func_TX_FC_def send_CF_abort_def iso15765_receive_def receive_FC_def
      Let_def iso15765_consts)

theorem flow_control_timeout_and_malformed_witness:
  "msg_index [0x32, 0x00, 0x00] 0 AND 0xF0 = NPCI_FLOW_CONTROL
   \<and> 1 < unat (msg_index [0x32, 0x00, 0x00] 0 AND 0x0F)
   \<and> timer_func_TX_FC
        (fst (snd (iso15765_send (iso15765_ctor True 50 3 4095) [1, 2, 3, 4, 5, 6, 7, 8] eid_any False True))) =
       (iso15765_ctor True 50 3 4095\<lparr>CF_SN := 1, CF_size := 8\<rparr>, [Upper_indication rx_timeout eid_any])
   \<and> snd (iso15765_receive
        (fst (snd (iso15765_send (iso15765_ctor True 50 3 4095) [1, 2, 3, 4, 5, 6, 7, 8] eid_any False True)))
        [0x32, 0x00, 0x00] eid_any False) = [Upper_indication rx_error eid_any]"
proof -
  let ?s = "fst (snd (iso15765_send (iso15765_ctor True 50 3 4095) [1, 2, 3, 4, 5, 6, 7, 8] eid_any False True))"
  have s: "?s = iso15765_ctor True 50 3 4095
      \<lparr>CF_frame := [1, 2, 3, 4, 5, 6, 7, 8], CF_SN := 1, CF_DL := 6, CF_size := 8,
       timer_TX_FC := Some N_Bs\<rparr>"
    by (simp add: iso15765_ctor_def iso15765_send_def Let_def iso15765_consts)
  have h1: "[0x32, 0x00, 0x00] = (if use_ext_adr ?s then pop_front [0x32, 0x00, 0x00] else [0x32, 0x00, 0x00 :: byte])"
    unfolding s by (simp add: iso15765_ctor_def)
  have h2: "use_ext_adr ?s \<longrightarrow> msg_index [0x32, 0x00, 0x00] 0 = ext_source_adr ?s"
    unfolding s by (simp add: iso15765_ctor_def)
  have h3: "msg_index [0x32, 0x00, 0x00] 0 AND 0xF0 = NPCI_FLOW_CONTROL"
    by (simp add: msg_index_def NPCI_FLOW_CONTROL_def)
  have h4: "1 < unat (msg_index [0x32, 0x00, 0x00] 0 AND 0x0F)"
    by (simp add: msg_index_def)
  then have h4': "length [0x32, 0x00, 0x00 :: byte] < FC_DATALENGTH \<or> 1 < unat (msg_index [0x32, 0x00, 0x00] 0 AND 0x0F)"
    by blast
  have e: "?s\<lparr>timer_TX_FC := None, CF_DL := 0, CF_frame := []\<rparr> =
      iso15765_ctor True 50 3 4095\<lparr>CF_SN := 1, CF_size := 8\<rparr>"
    unfolding s by (simp add: iso15765_ctor_def)
  from flow_control_timeout_and_malformed [OF h1 h2 h3 h4', of eid_any False] h3 h4 e
  show ?thesis by simp
qed

text \<open>
  Claim C6: while a multi-frame message is being reassembled (\<open>CF_DL_\<close> is not 0), a
  Consecutive Frame that passes the address check and whose sequence number nibble
  differs from the expected \<open>CF_SN_\<close> is discarded: the N_Cr timer is stopped,
  \<open>CF_DL_\<close> is set to 0 and \<open>CF_frame_\<close> is cleared, which is the idle receiver,
  nothing is delivered and \<open>rx_error\<close> is raised to the upper layer.
\<close>

theorem consecutive_frame_wrong_sequence_number:
  assumes "CF_DL s \<noteq> 0"
    and "data = (if use_ext_adr s then pop_front data0 else data0)"
    and "use_ext_adr s \<longrightarrow> msg_index data0 0 = ext_source_adr s"
    and "msg_index data 0 AND 0xF0 = NPCI_CONSECUTIVE_FRAME"
    and "msg_index data 0 AND 0x0F \<noteq> CF_SN s"
  shows "iso15765_receive s data0 ident more_frag =
           (s\<lparr>timer_RX_CF := None, CF_DL := 0, CF_frame := []\<rparr>, [Upper_indication rx_error ident])"
  using assms
  by (auto simp add: iso15765_receive_def receive_CF_def Let_def iso15765_consts)

theorem consecutive_frame_wrong_sequence_number_witness:
  "CF_DL (fst (iso15765_receive (iso15765_ctor True 50 3 4095) [0x10, 0x14, 1, 2, 3, 4, 5, 6] eid_any False)) = 20
   \<and> CF_SN (fst (iso15765_receive (iso15765_ctor True 50 3 4095) [0x10, 0x14, 1, 2, 3, 4, 5, 6] eid_any False)) = 1
   \<and> CF_frame (fst (iso15765_receive (iso15765_ctor True 50 3 4095) [0x10, 0x14, 1, 2, 3, 4, 5, 6] eid_any False))
       = [1, 2, 3, 4, 5, 6]
   \<and> iso15765_receive
        (fst (iso15765_receive (iso15765_ctor True 50 3 4095) [0x10, 0x14, 1, 2, 3, 4, 5, 6] eid_any False))
        [0x22, 7, 8, 9, 10, 11, 12, 13] eid_any False =
       (iso15765_ctor True 50 3 4095\<lparr>CF_SN := 1\<rparr>, [Upper_indication rx_error eid_any])"
proof -
  let ?s = "fst (iso15765_receive (iso15765_ctor True 50 3 4095) [0x10, 0x14, 1, 2, 3, 4, 5, 6] eid_any False)"
  let ?d = "[0x22, 7, 8, 9, 10, 11, 12, 13] :: byte list"
  have s: "?s = iso15765_ctor True 50 3 4095
      \<lparr>CF_frame := [1, 2, 3, 4, 5, 6], CF_SN := 1, CF_DL := 20, timer_RX_CF := Some N_Cr\<rparr>"
    by (simp add: iso15765_ctor_def iso15765_receive_def receive_FF_def make_large_def
        msg_index_def pop_front_def resize_def Let_def iso15765_consts)
  have h1: "CF_DL ?s \<noteq> 0"
    by (simp add: s)
  have h2: "?d = (if use_ext_adr ?s then pop_front ?d else ?d)"
    unfolding s by (simp add: iso15765_ctor_def)
  have h3: "use_ext_adr ?s \<longrightarrow> msg_index ?d 0 = ext_source_adr ?s"
    unfolding s by (simp add: iso15765_ctor_def)
  have h4: "msg_index ?d 0 AND 0xF0 = NPCI_CONSECUTIVE_FRAME"
    by (simp add: msg_index_def NPCI_CONSECUTIVE_FRAME_def)
  have h5: "msg_index ?d 0 AND 0x0F \<noteq> CF_SN ?s"
    by (simp add: s msg_index_def)
  have e: "?s\<lparr>timer_RX_CF := None, CF_DL := 0, CF_frame := []\<rparr> = iso15765_ctor True 50 3 4095\<lparr>CF_SN := 1\<rparr>"
    unfolding s by (simp add: iso15765_ctor_def)
  have v: "CF_DL ?s = 20" "CF_SN ?s = 1" "CF_frame ?s = [1, 2, 3, 4, 5, 6]"
    by (simp_all add: s)
  from consecutive_frame_wrong_sequence_number [OF h1 h2 h3 h4 h5, of eid_any False] e v
  show ?thesis by simp
qed


section \<open>Properties of the paged message\<close>

subsection \<open>What releasing and sharing pages leaves unchanged\<close>

lemma release_frame:
  "page_size (release p pool) = page_size pool"
  "length (pool_pages (release p pool)) = length (pool_pages pool)"
  "page_data (pool_pages (release p pool) ! q) = page_data (pool_pages pool ! q)"
  by (cases "q = p"; simp add: release_def Let_def)+

lemma acquire_ref_frame:
  "page_size (acquire_ref p pool) = page_size pool"
  "length (pool_pages (acquire_ref p pool)) = length (pool_pages pool)"
  "page_data (pool_pages (acquire_ref p pool) ! q) = page_data (pool_pages pool ! q)"
  by (cases "q = p"; simp add: acquire_ref_def)+

lemma fold_release_frame:
  "page_size (fold release ps pool) = page_size pool
   \<and> length (pool_pages (fold release ps pool)) = length (pool_pages pool)
   \<and> page_data (pool_pages (fold release ps pool) ! q) = page_data (pool_pages pool ! q)"
  by (induction ps arbitrary: pool) (simp_all add: release_frame)

lemma fold_acquire_ref_frame:
  "page_size (fold acquire_ref ps pool) = page_size pool
   \<and> length (pool_pages (fold acquire_ref ps pool)) = length (pool_pages pool)
   \<and> page_data (pool_pages (fold acquire_ref ps pool) ! q) = page_data (pool_pages pool ! q)"
  by (induction ps arbitrary: pool) (simp_all add: acquire_ref_frame)

text \<open>The bytes of a message depend on the page size and on the page contents only.\<close>

lemma msg_read_cong:
  assumes "page_size pool2 = page_size pool1"
    and "\<And>q. page_data (pool_pages pool2 ! q) = page_data (pool_pages pool1 ! q)"
  shows "msg_size pool2 m = msg_size pool1 m"
    and "msg_at pool2 m i = msg_at pool1 m i"
    and "msg_bytes pool2 m = msg_bytes pool1 m"
  using assms by (simp_all add: msg_size_def msg_at_def msg_bytes_def Let_def)

lemma msg_clear_read:
  "msg_size (fst (msg_clear pool m)) n = msg_size pool n"
  "msg_at (fst (msg_clear pool m)) n i = msg_at pool n i"
  "msg_bytes (fst (msg_clear pool m)) n = msg_bytes pool n"
  by (rule msg_read_cong; simp add: msg_clear_def fold_release_frame)+

lemma ref_copy_read:
  "msg_size (fst (ref_copy pool b a)) n = msg_size pool n"
  "msg_at (fst (ref_copy pool b a)) n i = msg_at pool n i"
  "msg_bytes (fst (ref_copy pool b a)) n = msg_bytes pool n"
  by (rule msg_read_cong;
      simp add: ref_copy_def msg_clear_def fold_release_frame fold_acquire_ref_frame)+

text \<open>The mark does not change what is read.\<close>

lemma shared_read:
  "msg_size pool (m\<lparr>shared := x\<rparr>) = msg_size pool m"
  "msg_at pool (m\<lparr>shared := x\<rparr>) i = msg_at pool m i"
  "msg_bytes pool (m\<lparr>shared := x\<rparr>) = msg_bytes pool m"
  by (simp_all add: msg_size_def msg_at_def msg_bytes_def Let_def)

subsection \<open>Reference counts\<close>

lemma release_ref_count:
  "q < length (pool_pages pool) \<Longrightarrow>
   ref_count (pool_pages (release p pool) ! q) =
     (if p = q then ref_count (pool_pages pool ! q) - 1 else ref_count (pool_pages pool ! q))"
  by (simp add: release_def Let_def)

lemma acquire_ref_ref_count:
  "q < length (pool_pages pool) \<Longrightarrow>
   ref_count (pool_pages (acquire_ref p pool) ! q) =
     (if p = q then ref_count (pool_pages pool ! q) + 1 else ref_count (pool_pages pool ! q))"
  by (simp add: acquire_ref_def)

lemma fold_release_ref_count:
  "q < length (pool_pages pool) \<Longrightarrow>
   ref_count (pool_pages (fold release ps pool) ! q) =
     ref_count (pool_pages pool ! q) - count_list ps q"
proof (induction ps arbitrary: pool)
  case Nil
  show ?case by simp
next
  case (Cons p ps)
  have "q < length (pool_pages (release p pool))"
    using Cons.prems by (simp add: release_frame)
  from Cons.IH [OF this] show ?case
    using Cons.prems by (simp add: release_ref_count)
qed

lemma fold_acquire_ref_ref_count:
  "q < length (pool_pages pool) \<Longrightarrow>
   ref_count (pool_pages (fold acquire_ref ps pool) ! q) =
     ref_count (pool_pages pool ! q) + count_list ps q"
proof (induction ps arbitrary: pool)
  case Nil
  show ?case by simp
next
  case (Cons p ps)
  have "q < length (pool_pages (acquire_ref p pool))"
    using Cons.prems by (simp add: acquire_ref_frame)
  from Cons.IH [OF this] show ?case
    using Cons.prems by (simp add: acquire_ref_ref_count)
qed

subsection \<open>The free list\<close>

lemma acquire_ref_free_list: "free_list (acquire_ref p pool) = free_list pool"
  by (simp add: acquire_ref_def)

lemma fold_acquire_ref_free_list: "free_list (fold acquire_ref ps pool) = free_list pool"
  by (induction ps arbitrary: pool) (simp_all add: acquire_ref_free_list)

text \<open>
  Releasing references does not free a page that is referenced more often than it is
  released.
\<close>

lemma release_not_free:
  assumes "q \<notin> set (free_list pool)" and "p = q \<longrightarrow> 1 < ref_count (pool_pages pool ! q)"
  shows "q \<notin> set (free_list (release p pool))"
  using assms by (auto simp: release_def Let_def)

lemma fold_release_not_free:
  assumes "q < length (pool_pages pool)" and "q \<notin> set (free_list pool)"
    and "count_list ps q < ref_count (pool_pages pool ! q)"
  shows "q \<notin> set (free_list (fold release ps pool))"
  using assms
proof (induction ps arbitrary: pool)
  case Nil
  then show ?case by simp
next
  case (Cons p ps)
  have len: "q < length (pool_pages (release p pool))"
    using Cons.prems(1) by (simp add: release_frame)
  have nf: "q \<notin> set (free_list (release p pool))"
    using Cons.prems(2,3) by (intro release_not_free) auto
  have cnt: "count_list ps q < ref_count (pool_pages (release p pool) ! q)"
    using Cons.prems(1,3) by (auto simp: release_ref_count)
  from Cons.IH [OF len nf cnt] show ?case
    by simp
qed


subsection \<open>Element access\<close>

lemma concat_nth_uniform:
  assumes "\<forall>xs\<in>set xss. length xs = B" and "k < length xss * B"
  shows "concat xss ! k = xss ! (k div B) ! (k mod B)"
  using assms
proof (induction xss arbitrary: k)
  case Nil
  then show ?case by simp
next
  case (Cons xs xss)
  have B: "0 < B"
    using Cons.prems(2) by (cases B) simp_all
  have len: "length xs = B"
    using Cons.prems(1) by simp
  show ?case
  proof (cases "k < B")
    case True
    then show ?thesis
      using len by (simp add: nth_append)
  next
    case False
    then have ge: "B \<le> k"
      by simp
    have "k - B < length xss * B"
      using Cons.prems(2) ge by simp
    with Cons.IH [of "k - B"] Cons.prems(1)
    have ih: "concat xss ! (k - B) = xss ! ((k - B) div B) ! ((k - B) mod B)"
      by simp
    have d: "k div B = Suc ((k - B) div B)"
      using B ge by (simp add: le_div_geq)
    have m: "k mod B = (k - B) mod B"
      using ge by (simp add: le_mod_geq)
    show ?thesis
      using False len ih d m by (simp add: nth_append)
  qed
qed

lemma length_concat_uniform:
  "\<forall>xs\<in>set xss. length xs = B \<Longrightarrow> length (concat xss) = length xss * B"
  by (induction xss) simp_all

text \<open>
  Random access through the page table reads the byte that the logical model has at
  that index.
\<close>

lemma msg_at_msg_bytes:
  assumes wf: "msg_wf pool m" and i: "i < msg_size pool m"
  shows "msg_at pool m i = msg_bytes pool m ! i"
proof -
  let ?B = "page_size pool"
  let ?xss = "map (\<lambda>p. page_data (pool_pages pool ! p)) (pages m)"
  from i have ne: "pages m \<noteq> []"
    by (auto simp: msg_size_def split: if_splits)
  from i ne have off: "head m + i < length (pages m) * ?B"
    by (simp add: msg_size_def)
  have uni: "\<forall>xs\<in>set ?xss. length xs = ?B"
    using wf by (auto simp: msg_wf_def list_all_iff)
  have bound: "head m \<le> length (concat ?xss)"
    using off length_concat_uniform [OF uni] by simp
  have B: "0 < ?B"
    using wf by (simp add: msg_wf_def)
  have idx: "(head m + i) div ?B < length (pages m)"
    using off B by (simp add: less_mult_imp_div_less)
  have "msg_bytes pool m ! i = concat ?xss ! (head m + i)"
    using i bound by (simp add: msg_bytes_def)
  also have "\<dots> = ?xss ! ((head m + i) div ?B) ! ((head m + i) mod ?B)"
    using concat_nth_uniform [OF uni] off by simp
  also have "\<dots> = msg_at pool m i"
    using i idx by (simp add: msg_at_def Let_def)
  finally show ?thesis
    by simp
qed

text \<open>
  The byte sequence model used in the protocol layers agrees with the paged message:
  the logical byte sequence has \<open>size()\<close> bytes, and indexing it with the sentinel
  for an index past the end is \<open>at(i)\<close>.
\<close>

lemma length_msg_bytes:
  assumes "msg_wf pool m"
  shows "length (msg_bytes pool m) = msg_size pool m"
proof -
  let ?xss = "map (\<lambda>p. page_data (pool_pages pool ! p)) (pages m)"
  have "\<forall>xs\<in>set ?xss. length xs = page_size pool"
    using assms by (auto simp: msg_wf_def list_all_iff)
  then have "length (concat ?xss) = length (pages m) * page_size pool"
    using length_concat_uniform [of ?xss "page_size pool"] by simp
  then show ?thesis
    by (simp add: msg_bytes_def msg_size_def)
qed

lemma msg_at_msg_index:
  "msg_wf pool m \<Longrightarrow> msg_at pool m i = msg_index (msg_bytes pool m) i"
  by (cases "i < msg_size pool m")
    (simp_all add: msg_index_def length_msg_bytes msg_at_msg_bytes, simp add: msg_at_def)

text \<open>
  Claim C8: for every message and every index at or past its size, \<open>at(i)\<close> and the
  indexed access return the sentinel byte \<open>0xCC\<close>; for an index below the size of a
  well-formed message both return the stored byte, that is the byte of the logical byte
  sequence at that index.
\<close>

theorem msg_at_sentinel:
  "(msg_size pool m \<le> i \<longrightarrow> msg_at pool m i = 0xCC \<and> msg_subscript pool m i = 0xCC)
   \<and> (msg_wf pool m \<and> i < msg_size pool m \<longrightarrow>
        msg_at pool m i = msg_bytes pool m ! i \<and> msg_subscript pool m i = msg_bytes pool m ! i)"
  by (simp add: msg_at_msg_bytes msg_subscript_def) (simp add: msg_at_def)

lemma test_pool_eq:
  "test_pool = \<lparr>page_size = 3,
      pool_pages =
        [\<lparr>ref_count = 1, page_data = [1, 4, 9]\<rparr>,
         \<lparr>ref_count = 1, page_data = [16, 0, 0]\<rparr>,
         \<lparr>ref_count = 0, page_data = [0, 0, 0]\<rparr>,
         \<lparr>ref_count = 0, page_data = [0, 0, 0]\<rparr>],
      free_list = [2, 3], used_pages = 2, used_pages_max = 2\<rparr>"
  by code_simp

lemma test_msg_eq: "test_msg = \<lparr>pages = [0, 1], head = 0, tail = 1, shared = False\<rparr>"
  by code_simp

lemma test_msg_facts:
  "msg_wf test_pool test_msg" "msg_size test_pool test_msg = 4"
  "msg_bytes test_pool test_msg = [1, 4, 9, 16]"
  by (simp_all add: test_pool_eq test_msg_eq msg_wf_def msg_size_def msg_bytes_def)

text \<open>The element access test: index 3 holds 16, index 4 is past the end.\<close>

theorem msg_at_sentinel_witness:
  "msg_size test_pool test_msg = 4
   \<and> msg_wf test_pool test_msg
   \<and> msg_bytes test_pool test_msg = [1, 4, 9, 16]
   \<and> msg_at test_pool test_msg 3 = 16
   \<and> msg_subscript test_pool test_msg 4 = 0xCC
   \<and> msg_at test_pool test_msg 4 = 0xCC"
  using test_msg_facts msg_at_sentinel [of test_pool test_msg 3]
    msg_at_sentinel [of test_pool test_msg 4]
  by simp


subsection \<open>Cheap copies\<close>

lemma accounted_page:
  assumes "accounted pool a b" and "q \<in> set (pages a)"
  shows "q < length (pool_pages pool)" and "q \<notin> set (free_list pool)"
    and "count_list (pages a) q + count_list (pages b) q \<le> ref_count (pool_pages pool ! q)"
    and "0 < count_list (pages a) q"
proof -
  from assms show "q < length (pool_pages pool)" and "q \<notin> set (free_list pool)"
    and "count_list (pages a) q + count_list (pages b) q \<le> ref_count (pool_pages pool ! q)"
    by (auto simp: accounted_def list_all_iff)
  have "count_list (pages a) q \<noteq> 0"
    using assms(2) by (simp add: count_list_0_iff)
  then show "0 < count_list (pages a) q"
    by simp
qed

text \<open>
  The pool after \<open>b.ref_copy(a)\<close>: every page of \<open>a\<close> carries the references it had,
  less those that \<open>b\<close> gave up, plus one for each time the copy holds it.
\<close>

lemma ref_copy_page:
  assumes "accounted pool a b" and "q \<in> set (pages a)"
  shows "ref_count (pool_pages (fst (ref_copy pool b a)) ! q) =
           ref_count (pool_pages pool ! q) - count_list (pages b) q + count_list (pages a) q"
    and "q \<notin> set (free_list (fst (ref_copy pool b a)))"
    and "q < length (pool_pages (fst (ref_copy pool b a)))"
proof -
  note p = accounted_page [OF assms]
  have len: "q < length (pool_pages (fold release (pages b) pool))"
    using p(1) by (simp add: fold_release_frame)
  show "ref_count (pool_pages (fst (ref_copy pool b a)) ! q) =
           ref_count (pool_pages pool ! q) - count_list (pages b) q + count_list (pages a) q"
    using fold_acquire_ref_ref_count [OF len, of "pages a"] fold_release_ref_count [OF p(1), of "pages b"]
    by (simp add: ref_copy_def msg_clear_def)
  have "count_list (pages b) q < ref_count (pool_pages pool ! q)"
    using p(3,4) by simp
  from fold_release_not_free [OF p(1) p(2) this]
  show "q \<notin> set (free_list (fst (ref_copy pool b a)))"
    by (simp add: ref_copy_def msg_clear_def fold_acquire_ref_free_list)
  show "q < length (pool_pages (fst (ref_copy pool b a)))"
    using p(1) by (simp add: ref_copy_def msg_clear_def fold_release_frame fold_acquire_ref_frame)
qed

text \<open>After \<open>b.ref_copy(a)\<close> the source and the copy are read-only, with or without pages.\<close>

lemma ref_copy_read_only_state:
  assumes "accounted pool a b"
  shows "read_only (fst (ref_copy pool b a)) (a\<lparr>shared := True\<rparr>)"
proof (cases "pages a = []")
  case True
  then show ?thesis
    by (simp add: read_only_def)
next
  case False
  then have q: "hd (pages a) \<in> set (pages a)"
    by simp
  note p = accounted_page [OF assms q]
  have "1 < ref_count (pool_pages (fst (ref_copy pool b a)) ! hd (pages a))"
    using ref_copy_page(1) [OF assms q] p(3,4) by simp
  with q show ?thesis
    unfolding read_only_def list_ex_iff by auto
qed

text \<open>A read-only message refuses every mutating operation and stays as it is.\<close>

lemma read_only_refuses:
  "read_only pool m \<Longrightarrow> msg_mutate pool m op = (False, pool, m)"
  by (cases op)
    (simp_all add: write_path_def push_back_def push_front_def msg_pop_back_def msg_pop_front_def
      msg_insert_def msg_insert_fill_def msg_insert_range_def msg_erase_def msg_erase_range_def
      msg_resize_def msg_put_def msg_append_def)

text \<open>
  Clearing one side of a cheap copy gives up one reference for each time it held a page:
  every page is left with the references it had before the copy, less those that \<open>b\<close>
  gave up, and stays off the free list.
\<close>

lemma ref_copy_clear_page:
  assumes "accounted pool a b" and "q \<in> set (pages a)"
  shows "ref_count (pool_pages (fold release (pages a) (fst (ref_copy pool b a))) ! q) =
           ref_count (pool_pages pool ! q) - count_list (pages b) q"
    and "q \<notin> set (free_list (fold release (pages a) (fst (ref_copy pool b a))))"
    and "q < length (pool_pages (fold release (pages a) (fst (ref_copy pool b a))))"
proof -
  let ?pool1 = "fst (ref_copy pool b a)"
  note p = accounted_page [OF assms]
  note r = ref_copy_page [OF assms]
  have more: "count_list (pages a) q < ref_count (pool_pages ?pool1 ! q)"
    using r(1) p(3,4) by simp
  show "q \<notin> set (free_list (fold release (pages a) ?pool1))"
    using fold_release_not_free [OF r(3) r(2) more] .
  show "ref_count (pool_pages (fold release (pages a) ?pool1) ! q) =
          ref_count (pool_pages pool ! q) - count_list (pages b) q"
    using fold_release_ref_count [OF r(3), of "pages a"] r(1) by simp
  show "q < length (pool_pages (fold release (pages a) ?pool1))"
    using r(3) by (simp add: fold_release_frame)
qed

lemma ref_copy_clear_allocated:
  assumes "accounted pool a b"
  shows "allocated (fold release (pages a) (fst (ref_copy pool b a))) (a\<lparr>shared := True\<rparr>)"
proof -
  have "0 < ref_count (pool_pages pool ! q) - count_list (pages b) q" if "q \<in> set (pages a)" for q
    using accounted_page(3,4) [OF assms that] by simp
  then show ?thesis
    using ref_copy_clear_page [OF assms] by (simp add: allocated_def list_all_iff)
qed

text \<open>
  The accounting is an invariant: it holds of the source and the copy after
  \<open>b.ref_copy(a)\<close>, and of the side that is left after the other was cleared.
\<close>

lemma ref_copy_accounted:
  assumes "accounted pool a b"
  shows "accounted (fst (ref_copy pool b a)) (a\<lparr>shared := True\<rparr>) (a\<lparr>shared := True\<rparr>)"
proof -
  have "count_list (pages a) q + count_list (pages a) q
          \<le> ref_count (pool_pages pool ! q) - count_list (pages b) q + count_list (pages a) q"
    if "q \<in> set (pages a)" for q
    using accounted_page(3) [OF assms that] by simp
  then show ?thesis
    using ref_copy_page [OF assms] by (simp add: accounted_def list_all_iff)
qed

lemma ref_copy_clear_accounted:
  assumes "accounted pool a b"
  shows "accounted (fold release (pages a) (fst (ref_copy pool b a))) (a\<lparr>shared := True\<rparr>) empty_msg"
proof -
  have "count_list (pages a) q \<le> ref_count (pool_pages pool ! q) - count_list (pages b) q"
    if "q \<in> set (pages a)" for q
    using accounted_page(3) [OF assms that] by simp
  then show ?thesis
    using ref_copy_clear_page [OF assms] by (simp add: accounted_def list_all_iff empty_msg_def)
qed

subsection \<open>Allocated pages survive later allocations\<close>

lemma msg_bytes_cong_pages:
  assumes "page_size pool2 = page_size pool1"
    and "\<forall>q\<in>set (pages m). page_data (pool_pages pool2 ! q) = page_data (pool_pages pool1 ! q)"
  shows "msg_bytes pool2 m = msg_bytes pool1 m"
proof -
  have eq: "map (\<lambda>p. page_data (pool_pages pool2 ! p)) (pages m) =
        map (\<lambda>p. page_data (pool_pages pool1 ! p)) (pages m)"
    using assms(2) by simp
  show ?thesis
    unfolding msg_bytes_def msg_size_def eq assms(1) by (rule refl)
qed

text \<open>
  Appending a byte to a message \<open>c\<close> touches only pages of \<open>c\<close> and pages from the free
  list: a message \<open>a\<close> with other pages, none of them free, keeps its page contents.
\<close>

lemma push_back_page_keeps:
  assumes "set (pages c) \<inter> set (pages a) = {}"
    and "\<forall>q\<in>set (pages a). q \<notin> set (free_list pool)"
    and "push_back_page pool c v = (ok, pool1, c1)"
  shows "page_size pool1 = page_size pool"
    and "\<forall>q\<in>set (pages a). page_data (pool_pages pool1 ! q) = page_data (pool_pages pool ! q)"
    and "\<forall>q\<in>set (pages a). q \<notin> set (free_list pool1)"
    and "set (pages c1) \<inter> set (pages a) = {}"
proof -
  consider (fail) "pages c = [] \<or> tail c = page_size pool" "free_list pool = []"
    | (fresh) p rest where "pages c = [] \<or> tail c = page_size pool" "free_list pool = p # rest"
    | (room) "\<not> (pages c = [] \<or> tail c = page_size pool)"
    by (cases "free_list pool") auto
  then have "page_size pool1 = page_size pool
      \<and> (\<forall>q\<in>set (pages a). page_data (pool_pages pool1 ! q) = page_data (pool_pages pool ! q))
      \<and> (\<forall>q\<in>set (pages a). q \<notin> set (free_list pool1))
      \<and> set (pages c1) \<inter> set (pages a) = {}"
  proof cases
    case fail
    then show ?thesis
      using assms by (auto simp: push_back_page_def acquire_def)
  next
    case fresh
    have pa: "p \<notin> set (pages a)"
      using assms(2) fresh(2) by auto
    have r: "pool1 = write_byte (pool\<lparr>pool_pages := (pool_pages pool)[p := (pool_pages pool ! p)\<lparr>ref_count := 1\<rparr>],
                         free_list := rest,
                         used_pages := used_pages pool + 1,
                         used_pages_max := max (used_pages_max pool) (used_pages pool + 1)\<rparr>) p 0 v"
      "pages c1 = pages c @ [p]"
      using assms(3) fresh by (auto simp: push_back_page_def acquire_def)
    have "page_data (pool_pages pool1 ! q) = page_data (pool_pages pool ! q)" if "q \<in> set (pages a)" for q
    proof -
      from that pa have "q \<noteq> p" by auto
      then show ?thesis by (simp add: r(1) write_byte_def)
    qed
    moreover have "q \<notin> set (free_list pool1)" if "q \<in> set (pages a)" for q
      using that assms(2) fresh(2) by (auto simp: r(1) write_byte_def)
    moreover have "set (pages c1) \<inter> set (pages a) = {}"
      using assms(1) pa by (auto simp: r(2))
    moreover have "page_size pool1 = page_size pool"
      by (simp add: r(1) write_byte_def)
    ultimately show ?thesis
      by blast
  next
    case room
    then have ne: "pages c \<noteq> []"
      by simp
    have r: "pool1 = write_byte pool (last (pages c)) (tail c) v" "pages c1 = pages c"
      using assms(3) room by (auto simp: push_back_page_def)
    have "last (pages c) \<in> set (pages c)"
      using ne by (rule last_in_set)
    with assms(1) have la: "last (pages c) \<notin> set (pages a)"
      by blast
    have "page_data (pool_pages pool1 ! q) = page_data (pool_pages pool ! q)" if "q \<in> set (pages a)" for q
    proof -
      from that la have "q \<noteq> last (pages c)" by auto
      then show ?thesis by (simp add: r(1) write_byte_def)
    qed
    moreover have "free_list pool1 = free_list pool" "page_size pool1 = page_size pool"
      by (simp_all add: r(1) write_byte_def)
    ultimately show ?thesis
      using assms(1,2) by (simp add: r(2))
  qed
  then show "page_size pool1 = page_size pool"
    and "\<forall>q\<in>set (pages a). page_data (pool_pages pool1 ! q) = page_data (pool_pages pool ! q)"
    and "\<forall>q\<in>set (pages a). q \<notin> set (free_list pool1)"
    and "set (pages c1) \<inter> set (pages a) = {}"
    by blast+
qed

lemma put_pages_keeps:
  assumes "set (pages c) \<inter> set (pages a) = {}"
    and "\<forall>q\<in>set (pages a). q \<notin> set (free_list pool)"
  shows "page_size (fst (snd (put_pages pool c buf))) = page_size pool
     \<and> (\<forall>q\<in>set (pages a).
          page_data (pool_pages (fst (snd (put_pages pool c buf))) ! q) = page_data (pool_pages pool ! q))"
  using assms
proof (induction buf arbitrary: pool c)
  case Nil
  show ?case by simp
next
  case (Cons v buf)
  obtain ok pool1 c1 where s: "push_back_page pool c v = (ok, pool1, c1)"
    by (cases "push_back_page pool c v") auto
  note k = push_back_page_keeps [OF Cons.prems s]
  show ?case
  proof (cases ok)
    case True
    with s have "put_pages pool c (v # buf) = put_pages pool1 c1 buf"
      by simp
    with Cons.IH [OF k(4) k(3)] k(1,2) show ?thesis
      by simp
  next
    case False
    with s have "put_pages pool c (v # buf) = (False, pool1, c1)"
      by simp
    with k(1,2) show ?thesis
      by simp
  qed
qed

text \<open>
  Filling an empty message with any bytes leaves the byte sequence of a message whose
  pages are not free as it is, whether the pool has room for the bytes or not.
\<close>

lemma msg_put_empty_keeps:
  assumes "\<forall>q\<in>set (pages a). q \<notin> set (free_list pool)"
  shows "msg_bytes (fst (snd (msg_put pool empty_msg buf))) a = msg_bytes pool a"
proof -
  have e: "set (pages empty_msg) \<inter> set (pages a) = {}"
    by (simp add: empty_msg_def)
  obtain ok pool1 c1 where s: "put_pages pool empty_msg buf = (ok, pool1, c1)"
    by (cases "put_pages pool empty_msg buf") auto
  from put_pages_keeps [OF e assms, of buf] s
  have k: "page_size pool1 = page_size pool"
    "\<forall>q\<in>set (pages a). page_data (pool_pages pool1 ! q) = page_data (pool_pages pool ! q)"
    by simp_all
  have "fst (snd (msg_put pool empty_msg buf)) = (if ok then pool1 else pool)"
    using s by (simp add: msg_put_def write_path_def read_only_def empty_msg_def)
  then show ?thesis
    using msg_bytes_cong_pages [OF k] by simp
qed

lemma allocated_not_free: "allocated pool m \<Longrightarrow> \<forall>q\<in>set (pages m). q \<notin> set (free_list pool)"
  by (simp add: allocated_def list_all_iff)


subsection \<open>Messages filled from a fresh pool are accounted for\<close>

lemma push_back_page_accounted:
  assumes ok: "pool_ok pool" and acc: "accounted pool c empty_msg"
    and s: "push_back_page pool c v = (res, pool1, c1)"
  shows "pool_ok pool1 \<and> accounted pool1 c1 empty_msg"
proof -
  have c: "\<forall>q\<in>set (pages c). q < length (pool_pages pool) \<and> q \<notin> set (free_list pool)
             \<and> count_list (pages c) q \<le> ref_count (pool_pages pool ! q)"
    using acc by (simp add: accounted_def list_all_iff empty_msg_def)
  consider (fail) "pages c = [] \<or> tail c = page_size pool" "free_list pool = []"
    | (fresh) p rest where "pages c = [] \<or> tail c = page_size pool" "free_list pool = p # rest"
    | (room) "\<not> (pages c = [] \<or> tail c = page_size pool)"
    by (cases "free_list pool") auto
  then show ?thesis
  proof cases
    case fail
    then have "pool1 = pool" "c1 = c"
      using s by (auto simp: push_back_page_def acquire_def)
    with ok acc show ?thesis
      by simp
  next
    case fresh
    have p: "p < length (pool_pages pool)" "p \<notin> set rest" "distinct rest"
      "\<forall>x\<in>set rest. x < length (pool_pages pool)"
      using ok fresh(2) by (simp_all add: pool_ok_def list_all_iff)
    have pc: "p \<notin> set (pages c)"
      using c fresh(2) by auto
    have r: "pool_pages pool1 =
               (pool_pages pool)[p := (pool_pages pool ! p)\<lparr>ref_count := 1, page_data := (page_data (pool_pages pool ! p))[0 := v]\<rparr>]"
      "free_list pool1 = rest" "pages c1 = pages c @ [p]"
      using s fresh p(1) by (auto simp: push_back_page_def acquire_def write_byte_def)
    have "q < length (pool_pages pool1) \<and> q \<notin> set (free_list pool1)
            \<and> count_list (pages c1) q \<le> ref_count (pool_pages pool1 ! q)"
      if "q \<in> set (pages c1)" for q
    proof (cases "q = p")
      case True
      then show ?thesis
        using p pc by (simp add: r)
    next
      case False
      with that have "q \<in> set (pages c)"
        by (simp add: r(3))
      with c False fresh(2) show ?thesis
        by (auto simp: r)
    qed
    moreover have "pool_ok pool1"
      using p by (simp add: pool_ok_def list_all_iff r)
    ultimately show ?thesis
      by (simp add: accounted_def list_all_iff empty_msg_def)
  next
    case room
    then have ne: "pages c \<noteq> []"
      by simp
    have r: "pool1 = write_byte pool (last (pages c)) (tail c) v" "pages c1 = pages c"
      using s room by (auto simp: push_back_page_def)
    have rc: "ref_count (pool_pages pool1 ! q) = ref_count (pool_pages pool ! q)" for q
      by (cases "q = last (pages c)"; cases "q < length (pool_pages pool)")
        (simp_all add: r(1) write_byte_def list_update_beyond)
    have fl: "free_list pool1 = free_list pool" "length (pool_pages pool1) = length (pool_pages pool)"
      by (simp_all add: r(1) write_byte_def)
    show ?thesis
      using ok c by (simp add: pool_ok_def accounted_def list_all_iff empty_msg_def rc fl r(2))
  qed
qed

lemma put_pages_accounted:
  assumes "pool_ok pool" and "accounted pool c empty_msg"
  shows "pool_ok (fst (snd (put_pages pool c buf)))
     \<and> accounted (fst (snd (put_pages pool c buf))) (snd (snd (put_pages pool c buf))) empty_msg"
  using assms
proof (induction buf arbitrary: pool c)
  case Nil
  then show ?case by simp
next
  case (Cons v buf)
  obtain res pool1 c1 where s: "push_back_page pool c v = (res, pool1, c1)"
    by (cases "push_back_page pool c v") auto
  note k = push_back_page_accounted [OF Cons.prems s]
  show ?case
  proof (cases res)
    case True
    with s have "put_pages pool c (v # buf) = put_pages pool1 c1 buf"
      by simp
    with Cons.IH [of pool1 c1] k show ?thesis
      by simp
  next
    case False
    with s have "put_pages pool c (v # buf) = (False, pool1, c1)"
      by simp
    with k show ?thesis
      by simp
  qed
qed

text \<open>
  Whatever \<open>put\<close> stores in an empty message of a fresh pool, the pool accounts for the
  result.
\<close>

lemma msg_put_fresh_accounted:
  "accounted (fst (snd (msg_put (pool_init B P) empty_msg buf)))
     (snd (snd (msg_put (pool_init B P) empty_msg buf))) empty_msg"
proof -
  obtain res pool1 c1 where s: "put_pages (pool_init B P) empty_msg buf = (res, pool1, c1)"
    by (cases "put_pages (pool_init B P) empty_msg buf") auto
  have i: "pool_ok (pool_init B P)" "accounted (pool_init B P) empty_msg empty_msg"
    by (simp_all add: pool_ok_def pool_init_def accounted_def empty_msg_def list_all_iff)
  from put_pages_accounted [OF i, of buf] s
  have k: "accounted pool1 c1 empty_msg"
    by simp
  then have k': "accounted pool1 (c1\<lparr>shared := False\<rparr>) empty_msg"
    by (simp add: accounted_def)
  have e: "\<not> read_only (pool_init B P) empty_msg"
    by (simp add: read_only_def empty_msg_def)
  show ?thesis
  proof (cases res)
    case True
    with s e k' show ?thesis
      by (simp add: msg_put_def write_path_def)
  next
    case False
    with s e i(2) show ?thesis
      by (simp add: msg_put_def write_path_def)
  qed
qed


text \<open>
  Claim C7: for every pool and all messages \<open>a\<close> and \<open>b\<close> of the pool (the pool
  accounts for the pages of \<open>a\<close>), after \<open>b.ref_copy(a)\<close> both messages are
  read-only: every mutating operation of the container (\<open>push_back\<close>, \<open>push_front\<close>,
  \<open>pop_back\<close>, \<open>pop_front\<close>, the three forms of \<open>insert\<close>, the two forms of
  \<open>erase\<close>, \<open>resize\<close>, \<open>put\<close>, \<open>append\<close>) on either returns false and leaves the
  pool and the message, hence both sizes, unchanged. Both have the size that \<open>a\<close> had,
  and reading any index from \<open>b\<close> and from \<open>a\<close> returns the byte that \<open>a\<close> had
  there. \<open>clear\<close> on one of them empties that one and does not change the content of
  the other: its size and bytes are as before, its pages stay allocated (referenced and
  not on the free list), and refilling the cleared message with any bytes leaves the
  other's byte sequence as it was.
\<close>

theorem ref_copy_read_only:
  assumes "accounted pool a b"
  shows "case ref_copy pool b a of (pool1, a1, b1) \<Rightarrow>
      (\<forall>op. msg_mutate pool1 a1 op = (False, pool1, a1))
    \<and> (\<forall>op. msg_mutate pool1 b1 op = (False, pool1, b1))
    \<and> msg_size pool1 a1 = msg_size pool a
    \<and> msg_size pool1 b1 = msg_size pool a
    \<and> (\<forall>i. msg_at pool1 a1 i = msg_at pool a i \<and> msg_at pool1 b1 i = msg_at pool a i)
    \<and> (case msg_clear pool1 b1 of (pool2, b2) \<Rightarrow>
          msg_size pool2 b2 = 0
        \<and> msg_size pool2 a1 = msg_size pool a
        \<and> (\<forall>i. msg_at pool2 a1 i = msg_at pool a i)
        \<and> allocated pool2 a1
        \<and> (\<forall>buf. msg_bytes (fst (snd (msg_put pool2 b2 buf))) a1 = msg_bytes pool a))
    \<and> (case msg_clear pool1 a1 of (pool2, a2) \<Rightarrow>
          msg_size pool2 a2 = 0
        \<and> msg_size pool2 b1 = msg_size pool a
        \<and> (\<forall>i. msg_at pool2 b1 i = msg_at pool a i)
        \<and> allocated pool2 b1
        \<and> (\<forall>buf. msg_bytes (fst (snd (msg_put pool2 a2 buf))) b1 = msg_bytes pool a))"
proof -
  let ?pool1 = "fst (ref_copy pool b a)"
  let ?a1 = "a\<lparr>shared := True\<rparr>"
  let ?pool2 = "fold release (pages a) ?pool1"
  have rc: "fst (snd (ref_copy pool b a)) = ?a1" "snd (snd (ref_copy pool b a)) = ?a1"
    by (simp_all add: ref_copy_def)
  have cl: "fst (msg_clear ?pool1 ?a1) = ?pool2" "snd (msg_clear ?pool1 ?a1) = empty_msg"
    by (simp_all add: msg_clear_def)
  have ro: "\<forall>op. msg_mutate ?pool1 ?a1 op = (False, ?pool1, ?a1)"
    using read_only_refuses [OF ref_copy_read_only_state [OF assms]] by blast
  have sz1: "msg_size ?pool1 ?a1 = msg_size pool a"
    by (simp add: ref_copy_read shared_read)
  have at1: "\<forall>i. msg_at ?pool1 ?a1 i = msg_at pool a i"
    by (simp add: ref_copy_read shared_read)
  have p2: "?pool2 = fst (msg_clear ?pool1 ?a1)"
    by (simp add: msg_clear_def)
  have sz0: "msg_size ?pool2 empty_msg = 0"
    by (simp add: msg_size_def empty_msg_def)
  have sz2: "msg_size ?pool2 ?a1 = msg_size pool a"
    unfolding p2 by (simp add: msg_clear_read ref_copy_read shared_read)
  have at2: "\<forall>i. msg_at ?pool2 ?a1 i = msg_at pool a i"
    unfolding p2 by (simp add: msg_clear_read ref_copy_read shared_read)
  have by2: "msg_bytes ?pool2 ?a1 = msg_bytes pool a"
    unfolding p2 by (simp add: msg_clear_read ref_copy_read shared_read)
  have al: "allocated ?pool2 ?a1"
    using ref_copy_clear_allocated [OF assms] .
  have put: "\<forall>buf. msg_bytes (fst (snd (msg_put ?pool2 empty_msg buf))) ?a1 = msg_bytes pool a"
    using msg_put_empty_keeps [OF allocated_not_free [OF al]] by2 by simp
  show ?thesis
    unfolding split_beta rc cl
    using ro sz1 at1 sz0 sz2 at2 al put by blast
qed

lemma test_msg_accounted:
  "accounted test_pool test_msg empty_msg" "accounted test_pool empty_msg test_msg"
  by (simp_all add: accounted_def test_pool_eq test_msg_eq empty_msg_def)

text \<open>
  The copy test: a cheap copy of the four byte message into an empty message. Both
  refuse to be changed, the size stays 4, and after the copy is cleared the message
  still reads 16 at index 3, keeps its bytes when the cleared copy is filled with six
  other bytes, and accepts \<open>push_back\<close> again. A cheap copy of an empty message leaves
  both sides read-only as well.
\<close>

theorem ref_copy_read_only_witness:
  "accounted test_pool test_msg empty_msg
   \<and> msg_mutate (fst (ref_copy test_pool empty_msg test_msg))
        (fst (snd (ref_copy test_pool empty_msg test_msg))) (Push_back 1) =
       (False, fst (ref_copy test_pool empty_msg test_msg), fst (snd (ref_copy test_pool empty_msg test_msg)))
   \<and> msg_mutate (fst (ref_copy test_pool empty_msg test_msg))
        (snd (snd (ref_copy test_pool empty_msg test_msg))) (Push_front 1) =
       (False, fst (ref_copy test_pool empty_msg test_msg), snd (snd (ref_copy test_pool empty_msg test_msg)))
   \<and> msg_mutate (fst (ref_copy test_pool empty_msg test_msg))
        (snd (snd (ref_copy test_pool empty_msg test_msg))) (Resize 2) =
       (False, fst (ref_copy test_pool empty_msg test_msg), snd (snd (ref_copy test_pool empty_msg test_msg)))
   \<and> msg_size (fst (ref_copy test_pool empty_msg test_msg))
        (snd (snd (ref_copy test_pool empty_msg test_msg))) = 4
   \<and> msg_at (fst (ref_copy test_pool empty_msg test_msg))
        (snd (snd (ref_copy test_pool empty_msg test_msg))) 3 = 16
   \<and> msg_at (fst (msg_clear (fst (ref_copy test_pool empty_msg test_msg))
                 (snd (snd (ref_copy test_pool empty_msg test_msg)))))
        (fst (snd (ref_copy test_pool empty_msg test_msg))) 3 = 16
   \<and> msg_bytes (fst (snd (msg_put
         (fst (msg_clear (fst (ref_copy test_pool empty_msg test_msg))
                 (snd (snd (ref_copy test_pool empty_msg test_msg)))))
         (snd (msg_clear (fst (ref_copy test_pool empty_msg test_msg))
                 (snd (snd (ref_copy test_pool empty_msg test_msg)))))
         [7, 7, 7, 7, 7, 7])))
        (fst (snd (ref_copy test_pool empty_msg test_msg))) = [1, 4, 9, 16]
   \<and> fst (push_back (fst (msg_clear (fst (ref_copy test_pool empty_msg test_msg))
                 (snd (snd (ref_copy test_pool empty_msg test_msg)))))
        (fst (snd (ref_copy test_pool empty_msg test_msg))) 25)
   \<and> accounted test_pool empty_msg test_msg
   \<and> msg_mutate (fst (ref_copy test_pool test_msg empty_msg))
        (fst (snd (ref_copy test_pool test_msg empty_msg))) (Push_back 1) =
       (False, fst (ref_copy test_pool test_msg empty_msg), fst (snd (ref_copy test_pool test_msg empty_msg)))"
proof -
  let ?R = "ref_copy test_pool empty_msg test_msg"
  let ?E = "ref_copy test_pool test_msg empty_msg"
  have at3: "msg_at test_pool test_msg 3 = 16"
    by (simp add: test_pool_eq test_msg_eq msg_at_def msg_size_def)
  have w: "fst (push_back (fst (msg_clear (fst ?R) (snd (snd ?R)))) (fst (snd ?R)) 25)"
    by code_simp
  have t: "case ?R of (pool1, a1, b1) \<Rightarrow>
      (\<forall>op. msg_mutate pool1 a1 op = (False, pool1, a1))
    \<and> (\<forall>op. msg_mutate pool1 b1 op = (False, pool1, b1))
    \<and> msg_size pool1 a1 = msg_size test_pool test_msg
    \<and> msg_size pool1 b1 = msg_size test_pool test_msg
    \<and> (\<forall>i. msg_at pool1 a1 i = msg_at test_pool test_msg i
           \<and> msg_at pool1 b1 i = msg_at test_pool test_msg i)
    \<and> (case msg_clear pool1 b1 of (pool2, b2) \<Rightarrow>
          msg_size pool2 b2 = 0
        \<and> msg_size pool2 a1 = msg_size test_pool test_msg
        \<and> (\<forall>i. msg_at pool2 a1 i = msg_at test_pool test_msg i)
        \<and> allocated pool2 a1
        \<and> (\<forall>buf. msg_bytes (fst (snd (msg_put pool2 b2 buf))) a1 = msg_bytes test_pool test_msg))
    \<and> (case msg_clear pool1 a1 of (pool2, a2) \<Rightarrow>
          msg_size pool2 a2 = 0
        \<and> msg_size pool2 b1 = msg_size test_pool test_msg
        \<and> (\<forall>i. msg_at pool2 b1 i = msg_at test_pool test_msg i)
        \<and> allocated pool2 b1
        \<and> (\<forall>buf. msg_bytes (fst (snd (msg_put pool2 a2 buf))) b1 = msg_bytes test_pool test_msg))"
    using ref_copy_read_only [OF test_msg_accounted(1)] .
  have e: "case ?E of (pool1, a1, b1) \<Rightarrow> (\<forall>op. msg_mutate pool1 a1 op = (False, pool1, a1))"
    using ref_copy_read_only [OF test_msg_accounted(2)] by (simp add: split_beta)
  from t have t1: "\<forall>op. msg_mutate (fst ?R) (fst (snd ?R)) op = (False, fst ?R, fst (snd ?R))"
    and t2: "\<forall>op. msg_mutate (fst ?R) (snd (snd ?R)) op = (False, fst ?R, snd (snd ?R))"
    and t3: "msg_size (fst ?R) (snd (snd ?R)) = msg_size test_pool test_msg"
    and t4: "\<forall>i. msg_at (fst ?R) (snd (snd ?R)) i = msg_at test_pool test_msg i"
    and t5: "\<forall>i. msg_at (fst (msg_clear (fst ?R) (snd (snd ?R)))) (fst (snd ?R)) i = msg_at test_pool test_msg i"
    and t6: "\<forall>buf. msg_bytes (fst (snd (msg_put (fst (msg_clear (fst ?R) (snd (snd ?R))))
                 (snd (msg_clear (fst ?R) (snd (snd ?R)))) buf))) (fst (snd ?R))
               = msg_bytes test_pool test_msg"
    by (simp_all add: split_beta)
  from e have e1: "\<forall>op. msg_mutate (fst ?E) (fst (snd ?E)) op = (False, fst ?E, fst (snd ?E))"
    by (simp add: split_beta)
  show ?thesis
    using test_msg_accounted t1 t2 t3 t4 t5 t6 e1 w at3 test_msg_facts(2,3)
    by (intro conjI) (blast | simp)+
qed


subsection \<open>The container tests on the model\<close>

text \<open>
  The erase, insert, resize and element access tests of the container, run on the model
  in a pool of four pages of three bytes.
\<close>

lemma erase_test:
  "(let (ok0, p0, m0) = msg_put (pool_init 3 4) empty_msg [1, 4, 9, 16, 19];
        (ok1, p1, m1) = msg_mutate p0 m0 (Erase_range 2 4);
        (ok2, p2, m2) = msg_mutate p1 m1 (Erase 0);
        (ok3, p3, m3) = msg_mutate p2 m2 (Erase (msg_size p2 m2 - 1))
    in (msg_bytes p1 m1, msg_bytes p2 m2, msg_bytes p3 m3, msg_size p3 m3))
   = ([1, 4, 19], [4, 19], [4], 1)"
  by code_simp

lemma insert_test:
  "(let (ok0, p0, m0) = msg_put (pool_init 3 4) empty_msg [1, 4, 25];
        (ok1, p1, m1) = msg_mutate p0 m0 (Insert 0 0);
        (ok2, p2, m2) = msg_mutate p1 m1 (Insert (msg_size p1 m1) 36);
        (ok3, p3, m3) = msg_mutate p2 m2 (Insert_range 3 [9, 16]);
        (ok4, p4, m4) = msg_mutate p3 m3 (Insert_fill 0 3 0x55)
    in (msg_bytes p2 m2, msg_bytes p3 m3, msg_bytes p4 m4, msg_size p4 m4))
   = ([0, 1, 4, 25, 36], [0, 1, 4, 9, 16, 25, 36],
      [0x55, 0x55, 0x55, 0, 1, 4, 9, 16, 25, 36], 10)"
  by code_simp

lemma resize_pop_test:
  "(let (ok1, p1, m1) = msg_mutate test_pool test_msg (Resize 3);
        (ok2, p2, m2) = msg_mutate test_pool test_msg (Push_back 25);
        (ok3, p3, m3) = msg_mutate p2 m2 Pop_back;
        (ok4, p4, m4) = msg_mutate p3 m3 Pop_front;
        (ok5, p5, m5) = msg_mutate test_pool test_msg (Resize 13)
    in (msg_bytes p1 m1, msg_bytes p2 m2, msg_bytes p3 m3, msg_bytes p4 m4, ok5, msg_bytes p5 m5))
   = ([1, 4, 9], [1, 4, 9, 16, 25], [1, 4, 9, 16], [4, 9, 16], False, [1, 4, 9, 16])"
  by code_simp


end
